theory Spec2Isabelle
  imports Complex_Main
begin

section \<open>Numbers and the data model of \<^verbatim>\<open>src/utils/trackerCalculations.ts\<close>\<close>

text \<open>
  The numbers a tracker holds (levels, stat values, base stats, effort values, individual
  values) are integers and are modelled as \<open>int\<close>. The code itself can produce three
  further values of the JavaScript number type: \<^verbatim>\<open>Math.min()\<close> of no argument is
  \<^verbatim>\<open>Infinity\<close>, \<^verbatim>\<open>Math.max()\<close> of no argument is \<^verbatim>\<open>-Infinity\<close>, and
  \<^verbatim>\<open>parseInt\<close> of a string without leading digits is \<^verbatim>\<open>NaN\<close>. A number that flows
  through an interval or a route variable is therefore a \<open>jsnum\<close>.
\<close>

datatype jsnum = Fin int | PosInf | NegInf | NaN

text \<open>\<^verbatim>\<open>Number.isFinite\<close>.\<close>

fun isFinite :: "jsnum \<Rightarrow> bool" where
  "isFinite (Fin _) = True"
| "isFinite _ = False"

text \<open>\<^verbatim>\<open>Math.min\<close> and \<^verbatim>\<open>Math.max\<close> of two arguments, then of an argument list.\<close>

fun jsMin :: "jsnum \<Rightarrow> jsnum \<Rightarrow> jsnum" where
  "jsMin NaN _ = NaN"
| "jsMin _ NaN = NaN"
| "jsMin NegInf _ = NegInf"
| "jsMin _ NegInf = NegInf"
| "jsMin PosInf y = y"
| "jsMin x PosInf = x"
| "jsMin (Fin a) (Fin b) = Fin (min a b)"

fun jsMax :: "jsnum \<Rightarrow> jsnum \<Rightarrow> jsnum" where
  "jsMax NaN _ = NaN"
| "jsMax _ NaN = NaN"
| "jsMax PosInf _ = PosInf"
| "jsMax _ PosInf = PosInf"
| "jsMax NegInf y = y"
| "jsMax x NegInf = x"
| "jsMax (Fin a) (Fin b) = Fin (max a b)"

definition mathMin :: "jsnum list \<Rightarrow> jsnum" where
  "mathMin xs = foldr jsMin xs PosInf"

definition mathMax :: "jsnum list \<Rightarrow> jsnum" where
  "mathMax xs = foldr jsMax xs NegInf"

datatype Stat = hp | attack | defense | spAttack | spDefense | speed

text \<open>
  Modelled from the spec: \<^verbatim>\<open>STATS\<close> of \<^verbatim>\<open>./constants\<close> is not under src; the spec
  gives the six stats in the fixed order hp/attack/defense/spAttack/spDefense/speed.
\<close>

definition STATS :: "Stat list" where
  "STATS = [hp, attack, defense, spAttack, spDefense, speed]"

text \<open>
  A \<^verbatim>\<open>Record<Stat, V>\<close> is a function from the six stats; \<open>statRecord\<close> builds the
  object literal \<^verbatim>\<open>{ hp, attack, defense, spAttack, spDefense, speed }\<close>. A
  \<^verbatim>\<open>StatLine\<close> is a \<^verbatim>\<open>Record<Stat, number>\<close>.
\<close>

definition statRecord :: "'v \<Rightarrow> 'v \<Rightarrow> 'v \<Rightarrow> 'v \<Rightarrow> 'v \<Rightarrow> 'v \<Rightarrow> Stat \<Rightarrow> 'v" where
  "statRecord h a d sa sd sp =
     (\<lambda>s. case s of hp \<Rightarrow> h | attack \<Rightarrow> a | defense \<Rightarrow> d
                   | spAttack \<Rightarrow> sa | spDefense \<Rightarrow> sd | speed \<Rightarrow> sp)"

type_synonym StatLine = "Stat \<Rightarrow> int"

datatype NatureType = Negative | Neutral | Positive

type_synonym interval = "jsnum \<times> jsnum"

text \<open>The sentinel \<^verbatim>\<open>[-1, -1]\<close>.\<close>

definition sentinel :: interval where
  "sentinel = (Fin (- 1), Fin (- 1))"

record IVRangeSet =
  negative :: interval
  neutral :: interval
  positive :: interval
  combined :: interval

text \<open>A \<^verbatim>\<open>NatureDefinition\<close>: its fields \<^verbatim>\<open>plus\<close> and \<^verbatim>\<open>minus\<close>.\<close>

record NatureDefinition =
  plus_stat :: Stat
  minus_stat :: Stat

type_synonym ConfirmedNature = "Stat option \<times> Stat option"

text \<open>
  The fields of \<^verbatim>\<open>Tracker\<close> (declared in \<^verbatim>\<open>../reducers/route/types\<close>, not under src)
  that the calculations read. \<open>recordedStats\<close> is the list that \<^verbatim>\<open>Object.entries\<close>
  yields, evolution by evolution and level by level; a level's stat line may be
  undefined (\<open>None\<close>). \<open>baseStats\<close> is the array of base-stat lines indexed by
  evolution. A missing static nature, or a missing manual nature, is \<open>None\<close>.
\<close>

record Tracker =
  generation :: int
  baseStats :: "StatLine list"
  startingLevel :: int
  evSegments :: "int \<rightharpoonup> (int \<rightharpoonup> StatLine)"
  recordedStats :: "(int \<times> (int \<times> StatLine option) list) list"
  staticIVs :: StatLine
  staticNature :: "string option"
  directInput :: bool
  directInputIVs :: StatLine
  manualNegativeNature :: "Stat option"
  manualPositiveNature :: "Stat option"

text \<open>
  The stat formulas \<^verbatim>\<open>calculateHP\<close>, \<^verbatim>\<open>calculateGen1Stat\<close> and \<^verbatim>\<open>calculateStat\<close>
  live in \<^verbatim>\<open>./calculations\<close>, which is not under src, and the spec gives only their
  contract. They are parameters of the model: \<open>calculateHP level baseStat iv ev generation\<close>,
  \<open>calculateGen1Stat level baseStat iv ev\<close>, \<open>calculateStat level baseStat iv ev modifier\<close>.
\<close>

record Formulas =
  calculateHP :: "int \<Rightarrow> int \<Rightarrow> int \<Rightarrow> int \<Rightarrow> int \<Rightarrow> int"
  calculateGen1Stat :: "int \<Rightarrow> int \<Rightarrow> int \<Rightarrow> int \<Rightarrow> int"
  calculateStat :: "int \<Rightarrow> int \<Rightarrow> int \<Rightarrow> int \<Rightarrow> rat \<Rightarrow> int"

definition calculateStatOrHP ::
  "Formulas \<Rightarrow> Stat \<Rightarrow> int \<Rightarrow> int \<Rightarrow> int \<Rightarrow> int \<Rightarrow> rat \<Rightarrow> int \<Rightarrow> int" where
  "calculateStatOrHP F stat level baseStat iv ev modifier gen =
     (if stat = hp then calculateHP F level baseStat iv ev gen
      else if gen \<le> 2 then calculateGen1Stat F level baseStat iv ev
      else calculateStat F level baseStat iv ev modifier)"

text \<open>
  Modelled from the spec: \<^verbatim>\<open>NATURE_MODIFIERS\<close> of \<^verbatim>\<open>./calculations\<close> is not under src.
  The code reads it as three entries, negative at index 0, neutral at 1 and positive at
  2; the spec gives the multipliers 0.9, 1.0 and 1.1.
\<close>

fun modifierOf :: "NatureType \<Rightarrow> rat" where
  "modifierOf Negative = 9 / 10"
| "modifierOf Neutral = 1"
| "modifierOf Positive = 11 / 10"

definition NATURE_MODIFIERS :: "(NatureType \<times> rat) list" where
  "NATURE_MODIFIERS = map (\<lambda>key. (key, modifierOf key)) [Negative, Neutral, Positive]"

text \<open>
  Modelled from the spec: \<^verbatim>\<open>range\<close> of \<^verbatim>\<open>./utils\<close> is not under src; the spec calls it
  integer range generation, and the code uses \<^verbatim>\<open>range(0, 31)\<close> for the IVs 0 to 31, both
  ends included.
\<close>

definition range_incl :: "int \<Rightarrow> int \<Rightarrow> int list" where
  "range_incl from to = [from..to]"

section \<open>Observed-data inference: the fold of \<^verbatim>\<open>calculatePossibleIVRange\<close>\<close>

text \<open>The effort value \<^verbatim>\<open>tracker.evSegments[tracker.startingLevel]?.[level]?.[stat] ?? 0\<close>.\<close>

definition evAt :: "Tracker \<Rightarrow> int \<Rightarrow> Stat \<Rightarrow> int" where
  "evAt tracker level stat =
     (case evSegments tracker (startingLevel tracker) of
        None \<Rightarrow> 0
      | Some seg \<Rightarrow> (case seg level of None \<Rightarrow> 0 | Some line \<Rightarrow> line stat))"

text \<open>
  The callback of the inner \<^verbatim>\<open>reduce\<close> (lines 162 to 184): one recorded
  \<open>(level, statLine)\<close> entry folded into the running interval \<open>(min, max)\<close> of one
  regime. A stat line that is undefined, or whose value for the stat is 0, is falsy
  and leaves the interval as it is.
\<close>

definition narrowStep ::
  "Formulas \<Rightarrow> Tracker \<Rightarrow> Stat \<Rightarrow> rat \<Rightarrow> int \<Rightarrow> interval \<Rightarrow> int \<times> StatLine option \<Rightarrow> interval" where
  "narrowStep F tracker stat modifier baseStat acc entry =
     (case acc of (mn, mx) \<Rightarrow> (case entry of (level, statLine) \<Rightarrow>
        if \<not> isFinite mn \<or> \<not> isFinite mx \<or> mn = Fin (- 1) then (Fin (- 1), Fin (- 1))
        else (case (mn, mx, statLine) of
            (Fin lo, Fin hi, Some line) \<Rightarrow>
              if line stat = 0 then (mn, mx)
              else
                (let matchingStats = filter (\<lambda>possibleIV.
                       calculateStatOrHP F stat level baseStat possibleIV
                         (evAt tracker level stat) modifier (generation tracker) = line stat)
                       (range_incl lo hi)
                 in if length matchingStats = 0 then (Fin (- 1), Fin (- 1))
                    else
                      (let minMatchingStat = mathMin (map Fin matchingStats);
                           maxMatchingStat = mathMax (map Fin matchingStats)
                       in (jsMax mn minMatchingStat, jsMin mx maxMatchingStat)))
          | _ \<Rightarrow> (mn, mx))))"

text \<open>The inner \<^verbatim>\<open>reduce\<close> over the entries of one evolution's recorded levels.\<close>

definition foldSegments ::
  "Formulas \<Rightarrow> Tracker \<Rightarrow> Stat \<Rightarrow> rat \<Rightarrow> int \<Rightarrow> interval \<Rightarrow> (int \<times> StatLine option) list \<Rightarrow> interval" where
  "foldSegments F tracker stat modifier baseStat acc statSegments =
     foldl (narrowStep F tracker stat modifier baseStat) acc statSegments"

datatype error = TypeError | RangeError | SyntaxError

text \<open>
  \<^verbatim>\<open>tracker.baseStats[evo]\<close>: an array read; out of range it is undefined, and the
  property read \<^verbatim>\<open>[stat]\<close> on it then throws a TypeError.
\<close>

definition baseStatAt :: "Tracker \<Rightarrow> int \<Rightarrow> Stat \<Rightarrow> error + int" where
  "baseStatAt tracker evo stat =
     (if 0 \<le> evo \<and> nat evo < length (baseStats tracker)
      then Inr ((baseStats tracker ! nat evo) stat) else Inl TypeError)"

text \<open>The outer \<^verbatim>\<open>reduce\<close> over the evolutions (lines 157 to 185).\<close>

fun foldEvolutions ::
  "Formulas \<Rightarrow> Tracker \<Rightarrow> Stat \<Rightarrow> rat \<Rightarrow> interval
     \<Rightarrow> (int \<times> (int \<times> StatLine option) list) list \<Rightarrow> error + interval" where
  "foldEvolutions F tracker stat modifier acc [] = Inr acc"
| "foldEvolutions F tracker stat modifier acc ((evo, statSegments) # rest) =
     (case baseStatAt tracker evo stat of
        Inl e \<Rightarrow> Inl e
      | Inr baseStat \<Rightarrow>
          foldEvolutions F tracker stat modifier
            (foldSegments F tracker stat modifier baseStat acc statSegments) rest)"



section \<open>\<^verbatim>\<open>calculatePossibleIVRange\<close>\<close>

text \<open>
  \<^verbatim>\<open>NATURES\<close> of \<^verbatim>\<open>./constants\<close> is not under src: the table from nature names to
  definitions is a parameter. \<^verbatim>\<open>tracker.staticNature && NATURES[tracker.staticNature]\<close>
  is falsy when the name is missing or empty, or when the table has no such entry.
\<close>

definition staticNatureDefinition ::
  "(string \<rightharpoonup> NatureDefinition) \<Rightarrow> Tracker \<Rightarrow> NatureDefinition option" where
  "staticNatureDefinition NATURES tracker =
     (case staticNature tracker of
        None \<Rightarrow> None
      | Some name \<Rightarrow> if name = [] then None else NATURES name)"

definition clampNegative :: "NatureDefinition option \<Rightarrow> Stat \<Rightarrow> bool" where
  "clampNegative staticDef stat =
     (case staticDef of None \<Rightarrow> True
      | Some d \<Rightarrow> minus_stat d = stat \<and> plus_stat d \<noteq> stat)"

definition clampPositive :: "NatureDefinition option \<Rightarrow> Stat \<Rightarrow> bool" where
  "clampPositive staticDef stat =
     (case staticDef of None \<Rightarrow> True
      | Some d \<Rightarrow> minus_stat d \<noteq> stat \<and> plus_stat d = stat)"

definition clampNeutral :: "NatureDefinition option \<Rightarrow> Stat \<Rightarrow> bool" where
  "clampNeutral staticDef stat =
     (case staticDef of None \<Rightarrow> True
      | Some d \<Rightarrow> (minus_stat d = stat \<and> plus_stat d = stat)
                 \<or> (minus_stat d \<noteq> stat \<and> plus_stat d \<noteq> stat))"

definition restrictPositive :: "Tracker \<Rightarrow> Stat \<Rightarrow> bool" where
  "restrictPositive tracker stat =
     (manualPositiveNature tracker \<noteq> None
      \<and> (manualPositiveNature tracker \<noteq> Some stat \<or> manualNegativeNature tracker = Some stat))"

definition restrictNeutral :: "Tracker \<Rightarrow> Stat \<Rightarrow> bool" where
  "restrictNeutral tracker stat =
     ((manualPositiveNature tracker = Some stat \<or> manualNegativeNature tracker = Some stat)
      \<and> \<not> (manualPositiveNature tracker = Some stat \<and> manualNegativeNature tracker = Some stat))"

definition restrictNegative :: "Tracker \<Rightarrow> Stat \<Rightarrow> bool" where
  "restrictNegative tracker stat =
     (manualNegativeNature tracker \<noteq> None
      \<and> (manualNegativeNature tracker \<noteq> Some stat \<or> manualPositiveNature tracker = Some stat))"

text \<open>One regime of the observed-data path: the folds started from \<^verbatim>\<open>[0, 31]\<close>.\<close>

definition observedRegime :: "Formulas \<Rightarrow> Tracker \<Rightarrow> Stat \<Rightarrow> NatureType \<Rightarrow> error + interval" where
  "observedRegime F tracker stat key =
     foldEvolutions F tracker stat (modifierOf key) (Fin 0, Fin 31) (recordedStats tracker)"

definition bindE :: "error + 'a \<Rightarrow> ('a \<Rightarrow> error + 'b) \<Rightarrow> error + 'b" where
  "bindE m f = (case m of Inl e \<Rightarrow> Inl e | Inr x \<Rightarrow> f x)"

text \<open>The \<^verbatim>\<open>combined\<close> entry of the observed-data path (lines 192 to 195).\<close>

definition combinedOf :: "interval \<Rightarrow> interval \<Rightarrow> interval \<Rightarrow> interval" where
  "combinedOf pos neg neu =
     (mathMin (filter (\<lambda>v. v \<noteq> Fin (- 1)) [fst pos, fst neg, fst neu]),
      mathMax (filter (\<lambda>v. v \<noteq> Fin (- 1)) [snd pos, snd neg, snd neu]))"

definition calculatePossibleIVRange ::
  "Formulas \<Rightarrow> (string \<rightharpoonup> NatureDefinition) \<Rightarrow> Stat \<Rightarrow> Tracker \<Rightarrow> error + IVRangeSet" where
  "calculatePossibleIVRange F NATURES stat tracker =
     (let staticIV = staticIVs tracker stat;
          staticDef = staticNatureDefinition NATURES tracker
      in if staticIV \<noteq> - 1 then
           Inr \<lparr> negative = (if clampNegative staticDef stat
                              then (Fin staticIV, Fin staticIV) else (Fin (- 1), Fin (- 1))),
                 neutral = (if clampNeutral staticDef stat
                             then (Fin staticIV, Fin staticIV) else (Fin (- 1), Fin (- 1))),
                 positive = (if clampPositive staticDef stat
                              then (Fin staticIV, Fin staticIV) else (Fin (- 1), Fin (- 1))),
                 combined = (Fin staticIV, Fin staticIV) \<rparr>
         else if directInput tracker then
           (let directInputIV = directInputIVs tracker stat
            in Inr \<lparr> negative = (if clampNegative staticDef stat \<or> \<not> restrictNegative tracker stat
                                   then (Fin directInputIV, Fin directInputIV)
                                   else (Fin (- 1), Fin (- 1))),
                      neutral = (if clampNeutral staticDef stat \<or> \<not> restrictNeutral tracker stat
                                  then (Fin directInputIV, Fin directInputIV)
                                  else (Fin (- 1), Fin (- 1))),
                      positive = (if clampPositive staticDef stat \<or> \<not> restrictPositive tracker stat
                                   then (Fin directInputIV, Fin directInputIV)
                                   else (Fin (- 1), Fin (- 1))),
                      combined = (Fin directInputIV, Fin directInputIV) \<rparr>)
         else
           bindE (observedRegime F tracker stat Negative) (\<lambda>neg.
           bindE (observedRegime F tracker stat Neutral) (\<lambda>neu.
           bindE (observedRegime F tracker stat Positive) (\<lambda>pos.
             Inr \<lparr> negative = neg, neutral = neu, positive = pos,
                   combined = combinedOf pos neg neu \<rparr>))))"

section \<open>\<^verbatim>\<open>calculatePossibleNature\<close> and \<^verbatim>\<open>calculateAllPossibleIVRanges\<close>\<close>

text \<open>
  \<^verbatim>\<open>Object.entries(ivRanges)\<close> lists the stats in the order of \<^verbatim>\<open>STATS\<close>, in which
  \<^verbatim>\<open>calculateAllPossibleIVRanges\<close> inserts them. A confirmed component is the stat of
  the manual selection or of the entry that \<^verbatim>\<open>find\<close> returns.
\<close>

definition calculatePossibleNature ::
  "(string \<rightharpoonup> NatureDefinition) \<Rightarrow> (Stat \<Rightarrow> IVRangeSet) \<Rightarrow> Tracker \<Rightarrow> ConfirmedNature" where
  "calculatePossibleNature NATURES ivRanges tracker =
     (case staticNatureDefinition NATURES tracker of
        Some d \<Rightarrow> (Some (minus_stat d), Some (plus_stat d))
      | None \<Rightarrow>
         (let confirmedNegative =
                (case manualNegativeNature tracker of
                   Some s \<Rightarrow> Some s
                 | None \<Rightarrow> find (\<lambda>stat. stat \<noteq> hp
                              \<and> fst (positive (ivRanges stat)) = Fin (- 1)
                              \<and> fst (neutral (ivRanges stat)) = Fin (- 1)) STATS);
              confirmedPositive =
                (case manualPositiveNature tracker of
                   Some s \<Rightarrow> Some s
                 | None \<Rightarrow> find (\<lambda>stat. stat \<noteq> hp
                              \<and> fst (negative (ivRanges stat)) = Fin (- 1)
                              \<and> fst (neutral (ivRanges stat)) = Fin (- 1)) STATS);
              possibleNegatives =
                filter (\<lambda>stat. stat \<noteq> hp \<and> fst (negative (ivRanges stat)) \<noteq> Fin (- 1)) STATS;
              possiblePositives =
                filter (\<lambda>stat. stat \<noteq> hp \<and> fst (positive (ivRanges stat)) \<noteq> Fin (- 1)) STATS
          in if length possibleNegatives = 0 \<or> length possiblePositives = 0
             then (Some attack, Some attack)
             else
               (let negativeByExclusion =
                      (if confirmedPositive \<noteq> None \<and> length possibleNegatives = 1
                       then Some (possibleNegatives ! 0) else None);
                    positiveByExclusion =
                      (if confirmedNegative \<noteq> None \<and> length possiblePositives = 1
                       then Some (possiblePositives ! 0) else None)
                in (case confirmedNegative of Some s \<Rightarrow> Some s | None \<Rightarrow> negativeByExclusion,
                    case confirmedPositive of Some s \<Rightarrow> Some s | None \<Rightarrow> positiveByExclusion))))"

text \<open>The ranges that enter \<^verbatim>\<open>combined\<close> for one stat (lines 208 to 212).\<close>

definition relevantRanges :: "ConfirmedNature \<Rightarrow> Stat \<Rightarrow> IVRangeSet \<Rightarrow> interval list" where
  "relevantRanges confirmed stat ivRanges =
     (case confirmed of (confirmedNegative, confirmedPositive) \<Rightarrow>
        (if confirmedPositive \<noteq> None
            \<and> (confirmedPositive \<noteq> Some stat \<or> confirmedNegative = Some stat)
         then [] else [positive ivRanges])
        @ (if (confirmedPositive = Some stat \<or> confirmedNegative = Some stat)
              \<and> \<not> (confirmedPositive = Some stat \<and> confirmedNegative = Some stat)
           then [] else [neutral ivRanges])
        @ (if confirmedNegative \<noteq> None
              \<and> (confirmedNegative \<noteq> Some stat \<or> confirmedPositive = Some stat)
           then [] else [negative ivRanges]))"

definition recombine :: "ConfirmedNature \<Rightarrow> Stat \<Rightarrow> IVRangeSet \<Rightarrow> IVRangeSet" where
  "recombine confirmed stat ivRanges =
     ivRanges \<lparr> combined :=
       (mathMin (filter (\<lambda>v. v \<noteq> Fin (- 1)) (map fst (relevantRanges confirmed stat ivRanges))),
        mathMax (filter (\<lambda>v. v \<noteq> Fin (- 1)) (map snd (relevantRanges confirmed stat ivRanges)))) \<rparr>"

definition calculateAllPossibleIVRanges ::
  "Formulas \<Rightarrow> (string \<rightharpoonup> NatureDefinition) \<Rightarrow> Tracker \<Rightarrow> error + (Stat \<Rightarrow> IVRangeSet)" where
  "calculateAllPossibleIVRanges F NATURES tracker =
     bindE (calculatePossibleIVRange F NATURES hp tracker) (\<lambda>rHp.
     bindE (calculatePossibleIVRange F NATURES attack tracker) (\<lambda>rAttack.
     bindE (calculatePossibleIVRange F NATURES defense tracker) (\<lambda>rDefense.
     bindE (calculatePossibleIVRange F NATURES spAttack tracker) (\<lambda>rSpAttack.
     bindE (calculatePossibleIVRange F NATURES spDefense tracker) (\<lambda>rSpDefense.
     bindE (calculatePossibleIVRange F NATURES speed tracker) (\<lambda>rSpeed.
       (let preliminaryResults = statRecord rHp rAttack rDefense rSpAttack rSpDefense rSpeed;
            confirmed = (if generation tracker \<le> 2 then (Some attack, Some attack)
                         else calculatePossibleNature NATURES preliminaryResults tracker)
        in Inr (\<lambda>stat. recombine confirmed stat (preliminaryResults stat)))))))))"

text \<open>
  The invariant of the spec for one interval: the sentinel, or an integer interval
  \<open>[lo, hi]\<close> with \<open>0 \<le> lo \<le> hi \<le> 31\<close>.
\<close>

definition validInterval :: "interval \<Rightarrow> bool" where
  "validInterval i =
     (case i of
        (Fin lo, Fin hi) \<Rightarrow> (lo = - 1 \<and> hi = - 1) \<or> (0 \<le> lo \<and> lo \<le> hi \<and> hi \<le> 31)
      | _ \<Rightarrow> False)"

text \<open>
  An instance of the stat formulas, for evaluating the model at concrete trackers: the
  usual formulas of the third and later generations, and for \<open>calculateGen1Stat\<close> the
  same shape without a modifier. Every theorem below that is not an evaluation holds
  for all formulas.
\<close>

definition sampleFormulas :: Formulas where
  "sampleFormulas =
     \<lparr> calculateHP = (\<lambda>level baseStat iv ev gen.
           (2 * baseStat + iv + ev div 4) * level div 100 + level + 10),
       calculateGen1Stat = (\<lambda>level baseStat iv ev.
           ((baseStat + iv) * 2 + ev div 4) * level div 100 + 5),
       calculateStat = (\<lambda>level baseStat iv ev modifier.
           \<lfloor>of_int ((2 * baseStat + iv + ev div 4) * level div 100 + 5) * modifier\<rfloor>) \<rparr>"

text \<open>
  Sample trackers for evaluation. \<open>lillipup\<close> takes its base stats from the calculator
  block of the route page under src (\<^verbatim>\<open>[45, 60, 45, 25, 45, 55]\<close>, then
  \<^verbatim>\<open>[65, 80, 65, 35, 65, 60]\<close>) and records one stat line at level 5.
  \<open>contradicted\<close> records an attack of 14 at that level, which no IV reaches in any
  regime. \<open>pinned\<close> is in direct-input mode with attack manually selected as the
  increased stat.
\<close>

definition lillipup :: Tracker where
  "lillipup =
     \<lparr> generation = 5,
       baseStats = [statRecord 45 60 45 25 45 55, statRecord 65 80 65 35 65 60],
       startingLevel = 5,
       evSegments = Map.empty,
       recordedStats = [(0, [(5, Some (statRecord 20 13 10 6 10 11))])],
       staticIVs = statRecord (- 1) (- 1) (- 1) (- 1) (- 1) (- 1),
       staticNature = None,
       directInput = False,
       directInputIVs = statRecord 0 0 0 0 0 0,
       manualNegativeNature = None,
       manualPositiveNature = None \<rparr>"

definition contradicted :: Tracker where
  "contradicted =
     lillipup \<lparr> recordedStats := [(0, [(5, Some (statRecord 20 14 10 6 10 11))])] \<rparr>"

definition pinned :: Tracker where
  "pinned =
     lillipup \<lparr> recordedStats := [],
                directInput := True,
                directInputIVs := statRecord 15 15 15 15 15 15,
                manualPositiveNature := Some attack \<rparr>"

text \<open>The running interval \<^verbatim>\<open>[0, 31]\<close> and the sentinel as range sets, for evaluation.\<close>

definition noNegativeRegime :: "Stat \<Rightarrow> IVRangeSet" where
  "noNegativeRegime stat =
     \<lparr> negative = (Fin (- 1), Fin (- 1)), neutral = (Fin 0, Fin 31),
       positive = (Fin 0, Fin 31), combined = (Fin 0, Fin 31) \<rparr>"

section \<open>The hidden-power resolver\<close>

definition HIDDEN_POWER_TYPES :: "string list" where
  "HIDDEN_POWER_TYPES =
     [''Fighting'', ''Flying'', ''Poison'', ''Ground'', ''Rock'', ''Bug'', ''Ghost'', ''Steel'',
      ''Fire'', ''Water'', ''Grass'', ''Electric'', ''Psychic'', ''Ice'', ''Dragon'', ''Dark'']"

text \<open>
  \<open>getIVValuesInSection\<close>. The spec gives \<^verbatim>\<open>range\<close> a meaning on integers only; on a
  bound that is not finite the model stops with \<open>RangeError\<close> instead of inventing
  a list.
\<close>

definition getIVValuesInSection :: "interval \<Rightarrow> error + int list" where
  "getIVValuesInSection bounds =
     (case bounds of (start, stop) \<Rightarrow>
        if start = Fin (- 1) \<or> stop = Fin (- 1) then Inr []
        else (case (start, stop) of
                (Fin a, Fin b) \<Rightarrow> Inr (range_incl a b)
              | _ \<Rightarrow> Inl RangeError))"

text \<open>\<^verbatim>\<open>[...new Set(xs)]\<close>: the elements in the order of their first occurrence.\<close>

definition uniqueInOrder :: "'a list \<Rightarrow> 'a list" where
  "uniqueInOrder xs = rev (remdups (rev xs))"

definition getUniqueIVValuesInRangeSet ::
  "IVRangeSet \<Rightarrow> Stat \<Rightarrow> ConfirmedNature \<Rightarrow> error + int list" where
  "getUniqueIVValuesInRangeSet ivRange stat confirmedNature =
     (case confirmedNature of (negativeNature, positiveNature) \<Rightarrow>
        if negativeNature = Some stat then getIVValuesInSection (negative ivRange)
        else if positiveNature = Some stat then getIVValuesInSection (positive ivRange)
        else
          bindE (if negativeNature = None then getIVValuesInSection (negative ivRange)
                 else Inr []) (\<lambda>negativeValues.
          bindE (getIVValuesInSection (neutral ivRange)) (\<lambda>neutralValues.
          bindE (if positiveNature = None then getIVValuesInSection (positive ivRange)
                 else Inr []) (\<lambda>positiveValues.
            Inr (uniqueInOrder (negativeValues @ neutralValues @ positiveValues))))))"

text \<open>
  The remainder operator \<^verbatim>\<open>%\<close> on integers: the result has the sign of the dividend, so
  \<^verbatim>\<open>-3 % 2\<close> is \<^verbatim>\<open>-1\<close>.
\<close>

definition jsRem :: "int \<Rightarrow> int \<Rightarrow> int" where
  "jsRem x y = sgn x * (\<bar>x\<bar> mod \<bar>y\<bar>)"

text \<open>
  The probabilities are quotients of two list lengths and products of six of them; they
  are modelled as rationals. The double-precision rounding of the quotients is not
  modelled.
\<close>

definition calculateOddnessProbababilityOfStat ::
  "IVRangeSet \<Rightarrow> Stat \<Rightarrow> ConfirmedNature \<Rightarrow> bool \<Rightarrow> error + rat" where
  "calculateOddnessProbababilityOfStat ivRange stat confirmedNature odd' =
     bindE (getUniqueIVValuesInRangeSet ivRange stat confirmedNature) (\<lambda>values.
       if length values = 0 then Inr 0
       else Inr (of_nat (length (filter (\<lambda>x. jsRem x 2 = (if odd' then 1 else 0)) values))
                 / of_nat (length values)))"

type_synonym StatLSBSet = "bool \<times> bool \<times> bool \<times> bool \<times> bool \<times> bool"

definition calculateHiddenPowerProbability ::
  "(Stat \<Rightarrow> IVRangeSet) \<Rightarrow> ConfirmedNature \<Rightarrow> StatLSBSet \<Rightarrow> error + rat" where
  "calculateHiddenPowerProbability ivs confirmedNature lsbs =
     (case lsbs of (hpOdd, attackOdd, defenseOdd, spAttackOdd, spDefenseOdd, speedOdd) \<Rightarrow>
        bindE (calculateOddnessProbababilityOfStat (ivs hp) hp confirmedNature hpOdd) (\<lambda>p1.
        bindE (calculateOddnessProbababilityOfStat (ivs attack) attack confirmedNature attackOdd) (\<lambda>p2.
        bindE (calculateOddnessProbababilityOfStat (ivs defense) defense confirmedNature defenseOdd) (\<lambda>p3.
        bindE (calculateOddnessProbababilityOfStat (ivs spAttack) spAttack confirmedNature spAttackOdd) (\<lambda>p4.
        bindE (calculateOddnessProbababilityOfStat (ivs spDefense) spDefense confirmedNature spDefenseOdd) (\<lambda>p5.
        bindE (calculateOddnessProbababilityOfStat (ivs speed) speed confirmedNature speedOdd) (\<lambda>p6.
          Inr (p1 * p2 * p3 * p4 * p5 * p6))))))))"

text \<open>
  \<^verbatim>\<open>new CartesianProduct([false, true], ...)\<close> of js-combinatorics, six times: the 64
  combinations, the first component changing fastest.
\<close>

definition cartesianProduct6 :: "StatLSBSet list" where
  "cartesianProduct6 =
     [(a, b, c, d, e, f). f \<leftarrow> [False, True], e \<leftarrow> [False, True], d \<leftarrow> [False, True],
                          c \<leftarrow> [False, True], b \<leftarrow> [False, True], a \<leftarrow> [False, True]]"

text \<open>\<^verbatim>\<open>map\<close> with a callback that may throw: the first error ends it.\<close>

fun mapE :: "('a \<Rightarrow> error + 'b) \<Rightarrow> 'a list \<Rightarrow> error + 'b list" where
  "mapE f [] = Inr []"
| "mapE f (x # xs) = bindE (f x) (\<lambda>y. bindE (mapE f xs) (\<lambda>ys. Inr (y # ys)))"

text \<open>
  The \<^verbatim>\<open>reduce\<close> of lines 384 to 386. The accumulator is \<open>(probability, combination)\<close>,
  with \<open>None\<close> for \<^verbatim>\<open>null\<close>; an entry is \<open>(combination, probability)\<close>.
\<close>

definition mostProbableStep ::
  "rat \<times> StatLSBSet option \<Rightarrow> StatLSBSet \<times> rat \<Rightarrow> rat \<times> StatLSBSet option" where
  "mostProbableStep acc entry =
     (if snd entry > fst acc then (snd entry, Some (fst entry)) else acc)"

definition mostProbableCombination ::
  "(StatLSBSet \<times> rat) list \<Rightarrow> rat \<times> StatLSBSet option" where
  "mostProbableCombination probabilities = foldl mostProbableStep (0, None) probabilities"

text \<open>The index of line 392; on integers that are not negative the floor of a quotient is \<open>div\<close>.\<close>

definition hiddenPowerIndex :: "StatLSBSet \<Rightarrow> int" where
  "hiddenPowerIndex combination =
     (case combination of (hpB, atkB, defB, spAtkB, spDefB, speedB) \<Rightarrow>
        (let hp = (if hpB then 1 else 0); atk = (if atkB then 1 else 0);
             def = (if defB then 1 else 0); spAtk = (if spAtkB then 1 else 0);
             spDef = (if spDefB then 1 else 0); speed = (if speedB then 1 else 0)
         in ((hp + atk * 2 + def * 4 + speed * 8 + spAtk * 16 + spDef * 32) * 15) div 63))"

text \<open>
  The result of \<open>calculateHiddenPowerType\<close>: \<^verbatim>\<open>null\<close>, a name of the list, or
  \<^verbatim>\<open>undefined\<close>, which an index outside the list would read.
\<close>

datatype hiddenPower = HPNull | HPUndefined | HPName string

definition calculateHiddenPowerType ::
  "(Stat \<Rightarrow> IVRangeSet) \<Rightarrow> ConfirmedNature \<Rightarrow> error + hiddenPower" where
  "calculateHiddenPowerType ivs confirmedNature =
     bindE (mapE (\<lambda>combination.
              bindE (calculateHiddenPowerProbability ivs confirmedNature combination)
                (\<lambda>probability. Inr (combination, probability)))
            cartesianProduct6) (\<lambda>probabilities.
       (case snd (mostProbableCombination probabilities) of
          None \<Rightarrow> Inr HPNull
        | Some combination \<Rightarrow>
            (let i = hiddenPowerIndex combination
             in if 0 \<le> i \<and> nat i < length HIDDEN_POWER_TYPES
                then Inr (HPName (HIDDEN_POWER_TYPES ! nat i))
                else Inr HPUndefined)))"

text \<open>A range set whose three regimes are finite intervals or the sentinel.\<close>

definition finiteRegimes :: "IVRangeSet \<Rightarrow> bool" where
  "finiteRegimes r =
     (isFinite (fst (negative r)) \<and> isFinite (snd (negative r))
      \<and> isFinite (fst (neutral r)) \<and> isFinite (snd (neutral r))
      \<and> isFinite (fst (positive r)) \<and> isFinite (snd (positive r)))"

text \<open>Range sets for evaluation: every IV possible, and a stat without possible IVs.\<close>

definition unknownIVs :: "Stat \<Rightarrow> IVRangeSet" where
  "unknownIVs stat =
     \<lparr> negative = (Fin 0, Fin 31), neutral = (Fin 0, Fin 31),
       positive = (Fin 0, Fin 31), combined = (Fin 0, Fin 31) \<rparr>"

definition oddIVs :: "Stat \<Rightarrow> IVRangeSet" where
  "oddIVs stat =
     \<lparr> negative = (Fin 31, Fin 31), neutral = (Fin 31, Fin 31),
       positive = (Fin 31, Fin 31), combined = (Fin 31, Fin 31) \<rparr>"

definition impossibleIVs :: "Stat \<Rightarrow> IVRangeSet" where
  "impossibleIVs stat =
     \<lparr> negative = (Fin (- 1), Fin (- 1)), neutral = (Fin (- 1), Fin (- 1)),
       positive = (Fin (- 1), Fin (- 1)), combined = (PosInf, NegInf) \<rparr>"

section \<open>Strings, \<^verbatim>\<open>parseInt\<close> and \<open>castRouteVariableAsType\<close>\<close>

text \<open>
  A JavaScript string is modelled as an Isabelle string: each \<open>char\<close> stands for the
  code unit of the same number, U+0000 to U+00FF. \<open>isStrWhiteSpaceChar\<close> lists the white
  space and line terminators of that range, which \<^verbatim>\<open>parseInt\<close> and \<^verbatim>\<open>trim\<close> skip.
\<close>

definition isStrWhiteSpaceChar :: "char \<Rightarrow> bool" where
  "isStrWhiteSpaceChar c =
     (c \<in> {CHR 0x09, CHR 0x0A, CHR 0x0B, CHR 0x0C, CHR 0x0D, CHR 0x20, CHR 0xA0})"

definition isDigit :: "char \<Rightarrow> bool" where
  "isDigit c = (48 \<le> (of_char c :: nat) \<and> (of_char c :: nat) \<le> 57)"

definition digitValue :: "char \<Rightarrow> nat" where
  "digitValue c = of_char c - 48"

definition digitsValue :: "string \<Rightarrow> nat" where
  "digitsValue ds = foldl (\<lambda>acc c. 10 * acc + digitValue c) 0 ds"

text \<open>The sign that \<^verbatim>\<open>parseInt\<close> reads, and the string without it.\<close>

definition signOf :: "string \<Rightarrow> int" where
  "signOf s = (case s of [] \<Rightarrow> 1 | c # _ \<Rightarrow> if c = CHR ''-'' then - 1 else 1)"

definition stripSign :: "string \<Rightarrow> string" where
  "stripSign s =
     (case s of [] \<Rightarrow> [] | c # rest \<Rightarrow> if c = CHR ''-'' \<or> c = CHR ''+'' then rest else s)"

text \<open>
  \<^verbatim>\<open>parseInt(inputString, 10)\<close>: skip leading white space, read a sign, take the longest
  prefix of decimal digits; without a digit the result is \<^verbatim>\<open>NaN\<close>. The value is the
  integer the digits denote; its rounding to a double beyond 2^53 is not modelled, and
  \<^verbatim>\<open>-0\<close> is 0.
\<close>

definition leadingDigits :: "string \<Rightarrow> string" where
  "leadingDigits inputString =
     takeWhile isDigit (stripSign (dropWhile isStrWhiteSpaceChar inputString))"

definition parseInt10 :: "string \<Rightarrow> jsnum" where
  "parseInt10 inputString =
     (let S = dropWhile isStrWhiteSpaceChar inputString;
          Z = takeWhile isDigit (stripSign S)
      in if Z = [] then NaN else Fin (signOf S * int (digitsValue Z)))"





text \<open>
  The values \<open>castRouteVariableAsType\<close> returns. The type tag is the string the
  \<^verbatim>\<open>switch\<close> compares; the raw value is a string or undefined (\<open>None\<close>).
\<close>

datatype routeValue = VUndefined | VNumber jsnum | VBoolean bool | VString string

definition castRouteVariableAsType :: "string \<Rightarrow> string option \<Rightarrow> routeValue" where
  "castRouteVariableAsType type raw =
     (case raw of
        None \<Rightarrow> VUndefined
      | Some v \<Rightarrow>
          if type = ''number'' then VNumber (parseInt10 v)
          else if type = ''boolean'' then VBoolean (v = ''true'')
          else VString v)"

section \<open>\<open>parseTypeDefinition\<close>\<close>

text \<open>\<^verbatim>\<open>split\<close> at a one-character separator: the empty string has one empty segment.\<close>

fun splitOn :: "char \<Rightarrow> string \<Rightarrow> string list" where
  "splitOn sep [] = [[]]"
| "splitOn sep (c # cs) =
     (if c = sep then [] # splitOn sep cs
      else (case splitOn sep cs of
              [] \<Rightarrow> [[c]]
            | segment # segments \<Rightarrow> (c # segment) # segments))"

definition trim :: "string \<Rightarrow> string" where
  "trim s = rev (dropWhile isStrWhiteSpaceChar (rev (dropWhile isStrWhiteSpaceChar s)))"

text \<open>\<^verbatim>\<open>toLowerCase\<close> on the code units U+0000 to U+00FF: A to Z, and the capital letters of Latin-1.\<close>

definition toLowerChar :: "char \<Rightarrow> char" where
  "toLowerChar c =
     (let n = (of_char c :: nat)
      in if (65 \<le> n \<and> n \<le> 90) \<or> (192 \<le> n \<and> n \<le> 222 \<and> n \<noteq> 215)
         then char_of (n + 32) else c)"

definition toLowerCase :: "string \<Rightarrow> string" where
  "toLowerCase s = map toLowerChar s"

definition typeSegments :: "string \<Rightarrow> string list" where
  "typeSegments rawTypes = map (\<lambda>x. toLowerCase (trim x)) (splitOn CHR ''/'' rawTypes)"

text \<open>
  \<^verbatim>\<open>TYPE_NAMES\<close> of \<^verbatim>\<open>./pokemonTypes\<close> is not under src: the list of type names is a
  parameter. The result is the returned list together with the arguments of the calls
  of \<^verbatim>\<open>onError\<close>, in order. \<^verbatim>\<open>if (invalidSegment)\<close> tests truthiness: an undefined
  result of \<^verbatim>\<open>find\<close> and the empty string are both falsy.
\<close>

definition parseTypeDefinition :: "string list \<Rightarrow> string \<Rightarrow> string list \<times> string list" where
  "parseTypeDefinition TYPE_NAMES rawTypes =
     (let segments = typeSegments rawTypes;
          invalidSegment = find (\<lambda>segment. segment \<notin> set TYPE_NAMES) segments
      in case invalidSegment of
           None \<Rightarrow> (segments, [])
         | Some segment \<Rightarrow> if segment \<noteq> [] then ([], [segment]) else (segments, []))"

text \<open>A list of type names for evaluation: the lower-case names of the eighteen types.\<close>

definition sampleTypeNames :: "string list" where
  "sampleTypeNames =
     [''normal'', ''fighting'', ''flying'', ''poison'', ''ground'', ''rock'', ''bug'', ''ghost'',
      ''steel'', ''fire'', ''water'', ''grass'', ''electric'', ''psychic'', ''ice'', ''dragon'',
      ''dark'', ''fairy'']"

section \<open>\<^verbatim>\<open>JSON.parse\<close>, \<^verbatim>\<open>JSON.stringify\<close> and \<open>parseStatLine\<close>\<close>

text \<open>
  A JSON value. A number is the rational its literal denotes (the rounding to a double
  is not modelled); a string is its list of UTF-16 code units.
\<close>

datatype json =
    JNull
  | JBool bool
  | JNumber rat
  | JString "nat list"
  | JArray "json list"
  | JObject "(nat list \<times> json) list"

definition isJsonWs :: "char \<Rightarrow> bool" where
  "isJsonWs c = (c \<in> {CHR 0x20, CHR 0x09, CHR 0x0A, CHR 0x0D})"

text \<open>The fraction and the exponent of a number literal, each optional.\<close>

definition parseFraction :: "string \<Rightarrow> (string \<times> string) option" where
  "parseFraction s =
     (case s of
        [] \<Rightarrow> Some ([], s)
      | c # rest \<Rightarrow>
          if c = CHR ''.'' then
            (if takeWhile isDigit rest = [] then None
             else Some (takeWhile isDigit rest, dropWhile isDigit rest))
          else Some ([], s))"

definition parseExponent :: "string \<Rightarrow> (int \<times> string) option" where
  "parseExponent s =
     (case s of
        [] \<Rightarrow> Some (0, s)
      | c # rest \<Rightarrow>
          if c = CHR ''e'' \<or> c = CHR ''E'' then
            (let digits = takeWhile isDigit (stripSign rest)
             in if digits = [] then None
                else Some (signOf rest * int (digitsValue digits),
                           dropWhile isDigit (stripSign rest)))
          else Some (0, s))"

text \<open>
  A number literal: an optional minus, the integer part without a leading zero unless it
  is 0 itself, the fraction, the exponent. A second digit after a leading zero is
  refused at once: no digit can follow a complete number in a JSON text.
\<close>

definition parseJsonNumber :: "string \<Rightarrow> (rat \<times> string) option" where
  "parseJsonNumber s =
     (let negated = (case s of [] \<Rightarrow> False | c # _ \<Rightarrow> c = CHR ''-'');
          s1 = (if negated then tl s else s);
          intDigits = takeWhile isDigit s1
      in if intDigits = [] \<or> (1 < length intDigits \<and> hd intDigits = CHR ''0'') then None
         else
           (case parseFraction (dropWhile isDigit s1) of
              None \<Rightarrow> None
            | Some (fracDigits, s2) \<Rightarrow>
                (case parseExponent s2 of
                   None \<Rightarrow> None
                 | Some (e, s3) \<Rightarrow>
                     Some ((if negated then - 1 else 1)
                           * (of_nat (digitsValue (intDigits @ fracDigits))
                              / 10 ^ length fracDigits)
                           * (if 0 \<le> e then 10 ^ nat e else 1 / 10 ^ nat (- e)),
                           s3))))"

definition hexValue :: "char \<Rightarrow> nat option" where
  "hexValue c =
     (let n = (of_char c :: nat)
      in if 48 \<le> n \<and> n \<le> 57 then Some (n - 48)
         else if 65 \<le> n \<and> n \<le> 70 then Some (n - 55)
         else if 97 \<le> n \<and> n \<le> 102 then Some (n - 87)
         else None)"

text \<open>The code unit of a one-character escape: quote, backslash, slash, b, f, n, r, t.\<close>

definition escapeValue :: "char \<Rightarrow> nat option" where
  "escapeValue c =
     (if c = CHR 0x22 then Some 34 else if c = CHR 0x5C then Some 92
      else if c = CHR ''/'' then Some 47 else if c = CHR ''b'' then Some 8
      else if c = CHR ''f'' then Some 12 else if c = CHR ''n'' then Some 10
      else if c = CHR ''r'' then Some 13 else if c = CHR ''t'' then Some 9
      else None)"

text \<open>The characters of a string literal after its opening quote, up to the closing quote.\<close>

fun parseJsonChars :: "string \<Rightarrow> (nat list \<times> string) option" where
  "parseJsonChars [] = None"
| "parseJsonChars (c # rest) =
     (if c = CHR 0x22 then Some ([], rest)
      else if c = CHR 0x5C then
        (case rest of
           [] \<Rightarrow> None
         | e # rest1 \<Rightarrow>
             if e = CHR ''u'' then
               (case rest1 of
                  h1 # h2 # h3 # h4 # rest2 \<Rightarrow>
                    (case (hexValue h1, hexValue h2, hexValue h3, hexValue h4) of
                       (Some d1, Some d2, Some d3, Some d4) \<Rightarrow>
                         (case parseJsonChars rest2 of
                            None \<Rightarrow> None
                          | Some (units, rest3) \<Rightarrow>
                              Some ((((d1 * 16 + d2) * 16 + d3) * 16 + d4) # units, rest3))
                     | _ \<Rightarrow> None)
                | _ \<Rightarrow> None)
             else
               (case escapeValue e of
                  None \<Rightarrow> None
                | Some u \<Rightarrow>
                    (case parseJsonChars rest1 of
                       None \<Rightarrow> None
                     | Some (units, rest3) \<Rightarrow> Some (u # units, rest3))))
      else if (of_char c :: nat) < 32 then None
      else
        (case parseJsonChars rest of
           None \<Rightarrow> None
         | Some (units, rest3) \<Rightarrow> Some (of_char c # units, rest3)))"

text \<open>One of the literals \<^verbatim>\<open>null\<close>, \<^verbatim>\<open>true\<close> and \<^verbatim>\<open>false\<close> at the head of the text.\<close>

definition parseLiteral :: "string \<Rightarrow> json \<Rightarrow> string \<Rightarrow> (json \<times> string) option" where
  "parseLiteral word v s =
     (if take (length word) s = word then Some (v, drop (length word) s) else None)"

text \<open>A value that is not an array or an object: a string, a literal or a number.\<close>

definition parseJsonScalar :: "string \<Rightarrow> (json \<times> string) option" where
  "parseJsonScalar s =
     (case s of
        [] \<Rightarrow> None
      | c # rest \<Rightarrow>
          if c = CHR 0x22 then
            (case parseJsonChars rest of
               None \<Rightarrow> None
             | Some (units, rest2) \<Rightarrow> Some (JString units, rest2))
          else if c = CHR ''n'' then parseLiteral ''null'' JNull s
          else if c = CHR ''t'' then parseLiteral ''true'' (JBool True) s
          else if c = CHR ''f'' then parseLiteral ''false'' (JBool False) s
          else
            (case parseJsonNumber s of
               None \<Rightarrow> None
             | Some (x, rest2) \<Rightarrow> Some (JNumber x, rest2)))"

text \<open>
  The recursive descent over values, array elements and object members. The first
  argument is fuel: each call passes one unit less to the calls it makes.
  \<open>JSON_parse\<close> starts with more than twice the length of the text, which is enough
  on every text (\<open>JSON_parse_fuel\<close>).
\<close>

fun parseJsonValue :: "nat \<Rightarrow> string \<Rightarrow> (json \<times> string) option"
  and parseJsonElements :: "nat \<Rightarrow> string \<Rightarrow> (json list \<times> string) option"
  and parseJsonMembers :: "nat \<Rightarrow> string \<Rightarrow> ((nat list \<times> json) list \<times> string) option"
where
  "parseJsonValue 0 s = None"
| "parseJsonValue (Suc n) s =
     (case dropWhile isJsonWs s of
        [] \<Rightarrow> None
      | c # rest \<Rightarrow>
          if c = CHR ''['' then
            (case dropWhile isJsonWs rest of
               [] \<Rightarrow> None
             | c1 # rest1 \<Rightarrow>
                 if c1 = CHR '']'' then Some (JArray [], rest1)
                 else (case parseJsonElements n rest of
                         None \<Rightarrow> None
                       | Some (elements, rest2) \<Rightarrow> Some (JArray elements, rest2)))
          else if c = CHR ''{'' then
            (case dropWhile isJsonWs rest of
               [] \<Rightarrow> None
             | c1 # rest1 \<Rightarrow>
                 if c1 = CHR ''}'' then Some (JObject [], rest1)
                 else (case parseJsonMembers n rest of
                         None \<Rightarrow> None
                       | Some (members, rest2) \<Rightarrow> Some (JObject members, rest2)))
          else parseJsonScalar (c # rest))"
| "parseJsonElements 0 s = None"
| "parseJsonElements (Suc n) s =
     (case parseJsonValue n s of
        None \<Rightarrow> None
      | Some (v, rest) \<Rightarrow>
          (case dropWhile isJsonWs rest of
             [] \<Rightarrow> None
           | c # rest1 \<Rightarrow>
               if c = CHR '','' then
                 (case parseJsonElements n rest1 of
                    None \<Rightarrow> None
                  | Some (vs, rest2) \<Rightarrow> Some (v # vs, rest2))
               else if c = CHR '']'' then Some ([v], rest1)
               else None))"
| "parseJsonMembers 0 s = None"
| "parseJsonMembers (Suc n) s =
     (case dropWhile isJsonWs s of
        [] \<Rightarrow> None
      | q # rest \<Rightarrow>
          if q \<noteq> CHR 0x22 then None
          else
            (case parseJsonChars rest of
               None \<Rightarrow> None
             | Some (key, rest1) \<Rightarrow>
                 (case dropWhile isJsonWs rest1 of
                    [] \<Rightarrow> None
                  | colon # rest2 \<Rightarrow>
                      if colon \<noteq> CHR '':'' then None
                      else
                        (case parseJsonValue n rest2 of
                           None \<Rightarrow> None
                         | Some (v, rest3) \<Rightarrow>
                             (case dropWhile isJsonWs rest3 of
                                [] \<Rightarrow> None
                              | c # rest4 \<Rightarrow>
                                  if c = CHR '','' then
                                    (case parseJsonMembers n rest4 of
                                       None \<Rightarrow> None
                                     | Some (ms, rest5) \<Rightarrow> Some ((key, v) # ms, rest5))
                                  else if c = CHR ''}'' then Some ([(key, v)], rest4)
                                  else None)))))"










section \<open>Properties of the fold\<close>

lemma mathMin_map_Fin:
  "xs \<noteq> [] \<Longrightarrow> mathMin (map Fin xs) = Fin (Min (set xs))"
proof (induction xs)
  case Nil
  then show ?case by simp
next
  case (Cons x xs)
  show ?case
  proof (cases "xs = []")
    case True
    then show ?thesis by (simp add: mathMin_def)
  next
    case False
    with Cons.IH have "foldr jsMin (map Fin xs) PosInf = Fin (Min (set xs))"
      by (simp add: mathMin_def)
    with False show ?thesis by (simp add: mathMin_def)
  qed
qed

lemma mathMax_map_Fin:
  "xs \<noteq> [] \<Longrightarrow> mathMax (map Fin xs) = Fin (Max (set xs))"
proof (induction xs)
  case Nil
  then show ?case by simp
next
  case (Cons x xs)
  show ?case
  proof (cases "xs = []")
    case True
    then show ?thesis by (simp add: mathMax_def)
  next
    case False
    with Cons.IH have "foldr jsMax (map Fin xs) NegInf = Fin (Max (set xs))"
      by (simp add: mathMax_def)
    with False show ?thesis by (simp add: mathMax_def)
  qed
qed

lemma narrowStep_sentinel:
  "narrowStep F tracker stat modifier baseStat sentinel entry = sentinel"
  by (cases entry) (simp add: narrowStep_def sentinel_def)

lemma foldSegments_sentinel:
  "foldSegments F tracker stat modifier baseStat sentinel statSegments = sentinel"
  by (induction statSegments) (simp_all add: foldSegments_def narrowStep_sentinel)

lemma narrowStep_empty:
  assumes "line stat \<noteq> 0"
    and "filter (\<lambda>iv. calculateStatOrHP F stat level baseStat iv
           (evAt tracker level stat) modifier (generation tracker) = line stat)
           (range_incl lo hi) = []"
  shows "narrowStep F tracker stat modifier baseStat (Fin lo, Fin hi) (level, Some line) = sentinel"
  using assms by (simp add: narrowStep_def sentinel_def)



lemma filter_range_bounds:
  assumes "ms = filter P (range_incl lo hi)" and "ms \<noteq> []"
  shows "lo \<le> Min (set ms) \<and> Min (set ms) \<le> Max (set ms) \<and> Max (set ms) \<le> hi"
proof -
  have fin: "finite (set ms)" by simp
  have ne: "set ms \<noteq> {}" using assms(2) by simp
  have sub: "set ms \<subseteq> {lo..hi}" using assms(1) by (auto simp: range_incl_def)
  have "Min (set ms) \<in> set ms" using fin ne by (rule Min_in)
  moreover have "Max (set ms) \<in> set ms" using fin ne by (rule Max_in)
  moreover have "Min (set ms) \<le> Max (set ms)" using fin ne by (metis Min_le Max_in)
  ultimately show ?thesis using sub by auto
qed

text \<open>
  One step of the fold: the new interval is the sentinel, or the old interval, or a
  non-empty integer interval inside the old one.
\<close>

lemma narrowStep_cases:
  "narrowStep F tracker stat modifier baseStat acc entry = sentinel
   \<or> narrowStep F tracker stat modifier baseStat acc entry = acc
   \<or> (\<exists>lo hi lo' hi'. acc = (Fin lo, Fin hi)
        \<and> narrowStep F tracker stat modifier baseStat acc entry = (Fin lo', Fin hi')
        \<and> lo \<le> lo' \<and> lo' \<le> hi' \<and> hi' \<le> hi)"
proof (cases acc)
  case (Pair mn mx)
  obtain level statLine where e: "entry = (level, statLine)" by (cases entry)
  show ?thesis
  proof (cases "\<not> isFinite mn \<or> \<not> isFinite mx \<or> mn = Fin (- 1)")
    case True
    then show ?thesis using Pair e by (simp add: narrowStep_def sentinel_def)
  next
    case False
    then obtain lo hi where f: "mn = Fin lo" "mx = Fin hi" "lo \<noteq> - 1"
      by (cases mn; cases mx) auto
    show ?thesis
    proof (cases statLine)
      case None
      then show ?thesis using Pair e f by (simp add: narrowStep_def)
    next
      case (Some line)
      show ?thesis
      proof (cases "line stat = 0")
        case True
        then show ?thesis using Pair e f Some by (simp add: narrowStep_def)
      next
        case nz: False
        define ms where "ms = filter (\<lambda>possibleIV.
            calculateStatOrHP F stat level baseStat possibleIV
              (evAt tracker level stat) modifier (generation tracker) = line stat)
            (range_incl lo hi)"
        show ?thesis
        proof (cases "ms = []")
          case True
          then show ?thesis using Pair e f Some nz
            by (simp add: narrowStep_def sentinel_def ms_def)
        next
          case False
          from filter_range_bounds[OF ms_def False]
          have b: "lo \<le> Min (set ms)" "Min (set ms) \<le> Max (set ms)" "Max (set ms) \<le> hi"
            by auto
          have r: "narrowStep F tracker stat modifier baseStat acc entry
                 = (Fin (max lo (Min (set ms))), Fin (min hi (Max (set ms))))"
            using Pair e f Some nz False
            by (simp add: narrowStep_def ms_def[symmetric] Let_def
                  mathMin_map_Fin mathMax_map_Fin)
          have "max lo (Min (set ms)) = Min (set ms)" "min hi (Max (set ms)) = Max (set ms)"
            using b by auto
          with r b Pair f show ?thesis by auto
        qed
      qed
    qed
  qed
qed

lemma foldSegments_snoc:
  "foldSegments F tracker stat modifier baseStat acc (statSegments @ [entry])
   = narrowStep F tracker stat modifier baseStat
       (foldSegments F tracker stat modifier baseStat acc statSegments) entry"
  by (simp add: foldSegments_def)

lemma foldSegments_append:
  "foldSegments F tracker stat modifier baseStat acc (pre @ post)
   = foldSegments F tracker stat modifier baseStat
       (foldSegments F tracker stat modifier baseStat acc pre) post"
  by (simp add: foldSegments_def)

lemma foldEvolutions_sentinel:
  "foldEvolutions F tracker stat modifier sentinel evos = Inr sentinel
   \<or> foldEvolutions F tracker stat modifier sentinel evos = Inl TypeError"
proof (induction evos)
  case Nil
  then show ?case by simp
next
  case (Cons p evos)
  obtain evo segs where p: "p = (evo, segs)" by (cases p)
  show ?case
  proof (cases "baseStatAt tracker evo stat")
    case (Inl e)
    then have "e = TypeError" by (auto simp: baseStatAt_def split: if_splits)
    with Inl p show ?thesis by simp
  next
    case (Inr b)
    with p Cons.IH show ?thesis by (simp add: foldSegments_sentinel)
  qed
qed

section \<open>Evaluation at the sample trackers\<close>

lemma floor_rat_numeral_divide:
  "\<lfloor>numeral a / numeral b :: rat\<rfloor> = numeral a div numeral b"
  by (metis floor_divide_of_int_eq of_int_numeral)

lemma range_0_31:
  "range_incl 0 31 = [0, 1, 2, 3, 4, 5, 6, 7, 8, 9, 10, 11, 12, 13, 14, 15, 16, 17, 18, 19, 20, 21, 22, 23, 24, 25, 26, 27, 28, 29, 30, 31]"
  unfolding range_incl_def by (simp add: upto.simps)

lemmas eval_simps =
  observedRegime_def baseStatAt_def foldSegments_def narrowStep_def statRecord_def
  sampleFormulas_def calculateStatOrHP_def evAt_def range_0_31 sentinel_def
  mathMin_def mathMax_def floor_rat_numeral_divide
  lillipup_def contradicted_def pinned_def

section \<open>The claims about observed-data inference\<close>

text \<open>
  Claim C3. In observed-data inference the fold of one regime preserves the sentinel.
  The callback maps the sentinel to the sentinel whatever the entry; the fold over any
  list of entries started at the sentinel ends at the sentinel; an entry with a
  non-zero observed value that no IV of the running interval matches turns the
  interval into the sentinel; and when the entry after a prefix \<open>pre\<close> yields the
  sentinel, the fold over \<open>pre\<close>, that entry and any further entries \<open>post\<close> ends at
  the sentinel. Across evolutions the fold started at the sentinel returns the
  sentinel, unless a recorded evolution has no base stats and the read throws.
\<close>

theorem sentinel_is_permanent:
  "narrowStep F tracker stat modifier baseStat sentinel entry = sentinel
   \<and> foldSegments F tracker stat modifier baseStat sentinel statSegments = sentinel
   \<and> (line stat \<noteq> 0
        \<and> filter (\<lambda>possibleIV. calculateStatOrHP F stat level baseStat possibleIV
              (evAt tracker level stat) modifier (generation tracker) = line stat)
            (range_incl lo hi) = []
      \<longrightarrow> narrowStep F tracker stat modifier baseStat (Fin lo, Fin hi) (level, Some line)
            = sentinel)
   \<and> (narrowStep F tracker stat modifier baseStat
          (foldSegments F tracker stat modifier baseStat acc pre) e = sentinel
      \<longrightarrow> foldSegments F tracker stat modifier baseStat acc (pre @ e # post) = sentinel)
   \<and> (foldEvolutions F tracker stat modifier sentinel evos = Inr sentinel
      \<or> foldEvolutions F tracker stat modifier sentinel evos = Inl TypeError)"
proof (intro conjI impI)
  show "narrowStep F tracker stat modifier baseStat sentinel entry = sentinel"
    by (rule narrowStep_sentinel)
  show "foldSegments F tracker stat modifier baseStat sentinel statSegments = sentinel"
    by (rule foldSegments_sentinel)
  show "narrowStep F tracker stat modifier baseStat (Fin lo, Fin hi) (level, Some line) = sentinel"
    if "line stat \<noteq> 0
        \<and> filter (\<lambda>possibleIV. calculateStatOrHP F stat level baseStat possibleIV
              (evAt tracker level stat) modifier (generation tracker) = line stat)
            (range_incl lo hi) = []"
    using that narrowStep_empty by blast
  show "foldSegments F tracker stat modifier baseStat acc (pre @ e # post) = sentinel"
    if h: "narrowStep F tracker stat modifier baseStat
          (foldSegments F tracker stat modifier baseStat acc pre) e = sentinel"
  proof -
    have "foldSegments F tracker stat modifier baseStat acc (pre @ e # post)
        = foldSegments F tracker stat modifier baseStat
            (foldSegments F tracker stat modifier baseStat acc (pre @ [e])) post"
      using foldSegments_append[of F tracker stat modifier baseStat acc "pre @ [e]" post]
      by simp
    then show ?thesis by (simp add: foldSegments_snoc h foldSegments_sentinel)
  qed
  show "foldEvolutions F tracker stat modifier sentinel evos = Inr sentinel
      \<or> foldEvolutions F tracker stat modifier sentinel evos = Inl TypeError"
    by (rule foldEvolutions_sentinel)
qed

text \<open>The sentinel claim at the tracker \<open>contradicted\<close>: an attack of 14 at level 5.\<close>

theorem sentinel_is_permanent_witness:
  "statRecord 20 14 10 6 10 11 attack \<noteq> (0::int)
   \<and> filter (\<lambda>possibleIV. calculateStatOrHP sampleFormulas attack 5 60 possibleIV
          (evAt contradicted 5 attack) 1 (generation contradicted)
          = statRecord 20 14 10 6 10 11 attack) (range_incl 0 31) = []
   \<and> narrowStep sampleFormulas contradicted attack 1 60 (Fin 0, Fin 31)
        (5, Some (statRecord 20 14 10 6 10 11)) = sentinel
   \<and> foldSegments sampleFormulas contradicted attack 1 60 (Fin 0, Fin 31)
        ([] @ (5, Some (statRecord 20 14 10 6 10 11))
            # [(6, Some (statRecord 22 14 11 9 11 12))]) = sentinel"
proof -
  have h1: "statRecord 20 14 10 6 10 11 attack \<noteq> (0::int)"
    by (simp add: statRecord_def)
  have h2: "filter (\<lambda>possibleIV. calculateStatOrHP sampleFormulas attack 5 60 possibleIV
          (evAt contradicted 5 attack) 1 (generation contradicted)
          = statRecord 20 14 10 6 10 11 attack) (range_incl 0 31) = []"
    by (simp add: eval_simps)
  have h3: "narrowStep sampleFormulas contradicted attack 1 60 (Fin 0, Fin 31)
        (5, Some (statRecord 20 14 10 6 10 11)) = sentinel"
    using sentinel_is_permanent[of sampleFormulas contradicted attack 1 60 _ _
        "statRecord 20 14 10 6 10 11" 5 0 31] h1 h2 by blast
  have h4: "foldSegments sampleFormulas contradicted attack 1 60 (Fin 0, Fin 31)
        ([] @ (5, Some (statRecord 20 14 10 6 10 11))
            # [(6, Some (statRecord 22 14 11 9 11 12))]) = sentinel"
    using sentinel_is_permanent[of sampleFormulas contradicted attack 1 60 _ _
        "statRecord 20 14 10 6 10 11" 5 0 31 "(Fin 0, Fin 31)" "[]"
        "(5, Some (statRecord 20 14 10 6 10 11))" "[(6, Some (statRecord 22 14 11 9 11 12))]"]
      h3 by (simp add: foldSegments_def)
  show ?thesis using h1 h2 h3 h4 by blast
qed

text \<open>
  Claim C6. Narrowing is monotonic. Folding one more entry into any running interval
  gives the sentinel, the same interval, or a non-empty integer interval inside it; so
  the fold over a list of entries followed by one more entry is the sentinel, equal to,
  or inside the fold over the list alone.
\<close>

theorem narrowing_is_monotonic:
  "(narrowStep F tracker stat modifier baseStat acc entry = sentinel
    \<or> narrowStep F tracker stat modifier baseStat acc entry = acc
    \<or> (\<exists>lo hi lo' hi'. acc = (Fin lo, Fin hi)
         \<and> narrowStep F tracker stat modifier baseStat acc entry = (Fin lo', Fin hi')
         \<and> lo \<le> lo' \<and> lo' \<le> hi' \<and> hi' \<le> hi))
   \<and> (foldSegments F tracker stat modifier baseStat start (statSegments @ [entry]) = sentinel
      \<or> foldSegments F tracker stat modifier baseStat start (statSegments @ [entry])
         = foldSegments F tracker stat modifier baseStat start statSegments
      \<or> (\<exists>lo hi lo' hi'.
           foldSegments F tracker stat modifier baseStat start statSegments = (Fin lo, Fin hi)
           \<and> foldSegments F tracker stat modifier baseStat start (statSegments @ [entry])
              = (Fin lo', Fin hi')
           \<and> lo \<le> lo' \<and> lo' \<le> hi' \<and> hi' \<le> hi))"
proof
  show "narrowStep F tracker stat modifier baseStat acc entry = sentinel
    \<or> narrowStep F tracker stat modifier baseStat acc entry = acc
    \<or> (\<exists>lo hi lo' hi'. acc = (Fin lo, Fin hi)
         \<and> narrowStep F tracker stat modifier baseStat acc entry = (Fin lo', Fin hi')
         \<and> lo \<le> lo' \<and> lo' \<le> hi' \<and> hi' \<le> hi)"
    by (rule narrowStep_cases)
  show "foldSegments F tracker stat modifier baseStat start (statSegments @ [entry]) = sentinel
      \<or> foldSegments F tracker stat modifier baseStat start (statSegments @ [entry])
         = foldSegments F tracker stat modifier baseStat start statSegments
      \<or> (\<exists>lo hi lo' hi'.
           foldSegments F tracker stat modifier baseStat start statSegments = (Fin lo, Fin hi)
           \<and> foldSegments F tracker stat modifier baseStat start (statSegments @ [entry])
              = (Fin lo', Fin hi')
           \<and> lo \<le> lo' \<and> lo' \<le> hi' \<and> hi' \<le> hi)"
    unfolding foldSegments_snoc by (rule narrowStep_cases)
qed

text \<open>The monotonicity claim at \<open>lillipup\<close>: the positive regime of attack narrows to 20..31.\<close>

theorem narrowing_is_monotonic_witness:
  "narrowStep sampleFormulas lillipup attack (11 / 10) 60 (Fin 0, Fin 31)
       (5, Some (statRecord 20 13 10 6 10 11)) = (Fin 20, Fin 31)
   \<and> (foldSegments sampleFormulas lillipup attack (11 / 10) 60 (Fin 0, Fin 31)
         ([] @ [(5, Some (statRecord 20 13 10 6 10 11))]) = sentinel
      \<or> foldSegments sampleFormulas lillipup attack (11 / 10) 60 (Fin 0, Fin 31)
           ([] @ [(5, Some (statRecord 20 13 10 6 10 11))])
         = foldSegments sampleFormulas lillipup attack (11 / 10) 60 (Fin 0, Fin 31) []
      \<or> (\<exists>lo hi lo' hi'.
           foldSegments sampleFormulas lillipup attack (11 / 10) 60 (Fin 0, Fin 31) []
             = (Fin lo, Fin hi)
           \<and> foldSegments sampleFormulas lillipup attack (11 / 10) 60 (Fin 0, Fin 31)
                ([] @ [(5, Some (statRecord 20 13 10 6 10 11))]) = (Fin lo', Fin hi')
           \<and> lo \<le> lo' \<and> lo' \<le> hi' \<and> hi' \<le> hi))"
proof
  show "narrowStep sampleFormulas lillipup attack (11 / 10) 60 (Fin 0, Fin 31)
       (5, Some (statRecord 20 13 10 6 10 11)) = (Fin 20, Fin 31)"
    by (simp add: eval_simps)
  show "foldSegments sampleFormulas lillipup attack (11 / 10) 60 (Fin 0, Fin 31)
         ([] @ [(5, Some (statRecord 20 13 10 6 10 11))]) = sentinel
      \<or> foldSegments sampleFormulas lillipup attack (11 / 10) 60 (Fin 0, Fin 31)
           ([] @ [(5, Some (statRecord 20 13 10 6 10 11))])
         = foldSegments sampleFormulas lillipup attack (11 / 10) 60 (Fin 0, Fin 31) []
      \<or> (\<exists>lo hi lo' hi'.
           foldSegments sampleFormulas lillipup attack (11 / 10) 60 (Fin 0, Fin 31) []
             = (Fin lo, Fin hi)
           \<and> foldSegments sampleFormulas lillipup attack (11 / 10) 60 (Fin 0, Fin 31)
                ([] @ [(5, Some (statRecord 20 13 10 6 10 11))]) = (Fin lo', Fin hi')
           \<and> lo \<le> lo' \<and> lo' \<le> hi' \<and> hi' \<le> hi)"
    using narrowing_is_monotonic[of sampleFormulas lillipup attack "11 / 10" 60
        "(Fin 0, Fin 31)" "(5, Some (statRecord 20 13 10 6 10 11))" "(Fin 0, Fin 31)" "[]"]
    by blast
qed

section \<open>The claim about nature inference\<close>

text \<open>
  Claim C5. With no static nature definition, when no stat other than hp has a viable
  negative regime, or none has a viable positive regime, \<open>calculatePossibleNature\<close>
  returns the pair (attack, attack). The function has no failing branch.
\<close>

theorem nature_fallback_pair:
  assumes "staticNatureDefinition NATURES tracker = None"
    and "(\<forall>stat. stat \<noteq> hp \<longrightarrow> fst (negative (ivRanges stat)) = Fin (- 1))
         \<or> (\<forall>stat. stat \<noteq> hp \<longrightarrow> fst (positive (ivRanges stat)) = Fin (- 1))"
  shows "calculatePossibleNature NATURES ivRanges tracker = (Some attack, Some attack)"
proof -
  from assms(2) have
    "filter (\<lambda>stat. stat \<noteq> hp \<and> fst (negative (ivRanges stat)) \<noteq> Fin (- 1)) STATS = []
     \<or> filter (\<lambda>stat. stat \<noteq> hp \<and> fst (positive (ivRanges stat)) \<noteq> Fin (- 1)) STATS = []"
    by (auto simp: filter_empty_conv)
  then show ?thesis
    using assms(1) by (auto simp: calculatePossibleNature_def Let_def)
qed

text \<open>The fallback at a range set without any negative regime.\<close>

theorem nature_fallback_pair_witness:
  "staticNatureDefinition Map.empty lillipup = None
   \<and> fst (negative (noNegativeRegime attack)) = Fin (- 1)
   \<and> calculatePossibleNature Map.empty noNegativeRegime lillipup = (Some attack, Some attack)"
proof -
  have h1: "staticNatureDefinition Map.empty lillipup = None"
    by (simp add: staticNatureDefinition_def lillipup_def)
  have h2: "\<forall>stat. stat \<noteq> hp \<longrightarrow> fst (negative (noNegativeRegime stat)) = Fin (- 1)"
    by (simp add: noNegativeRegime_def)
  from nature_fallback_pair[of Map.empty lillipup noNegativeRegime] h1 h2
  have "calculatePossibleNature Map.empty noNegativeRegime lillipup = (Some attack, Some attack)"
    by blast
  with h1 h2 show ?thesis by (simp add: noNegativeRegime_def)
qed


section \<open>The claims about \<^verbatim>\<open>calculatePossibleIVRange\<close>\<close>

lemma combined_of_sentinels:
  "combinedOf sentinel sentinel sentinel = (PosInf, NegInf)"
  by (simp add: combinedOf_def sentinel_def mathMin_def mathMax_def)

lemma recombine_of_sentinels:
  assumes "negative r = sentinel" "neutral r = sentinel" "positive r = sentinel"
  shows "combined (recombine confirmed stat r) = (PosInf, NegInf)"
proof -
  obtain cn cp where c: "confirmed = (cn, cp)" by (cases confirmed)
  have "set (relevantRanges confirmed stat r) \<subseteq> {sentinel}"
    using assms by (auto simp: relevantRanges_def c split: if_splits)
  then have "filter (\<lambda>v. v \<noteq> Fin (- 1)) (map fst (relevantRanges confirmed stat r)) = []"
    and "filter (\<lambda>v. v \<noteq> Fin (- 1)) (map snd (relevantRanges confirmed stat r)) = []"
    by (auto simp: filter_empty_conv sentinel_def)
  then show ?thesis by (simp add: recombine_def mathMin_def mathMax_def)
qed

lemma bindE_Inr: "bindE m f = Inr y \<Longrightarrow> \<exists>x. m = Inr x \<and> f x = Inr y"
  by (cases m) (simp_all add: bindE_def)

lemma calculateAll_Inr:
  assumes "calculateAllPossibleIVRanges F NATURES tracker = Inr R"
  shows "\<exists>confirmed P. (\<forall>stat. calculatePossibleIVRange F NATURES stat tracker = Inr (P stat))
           \<and> R = (\<lambda>stat. recombine confirmed stat (P stat))"
proof -
  from assms obtain rHp rAttack rDefense rSpAttack rSpDefense rSpeed where
    r: "calculatePossibleIVRange F NATURES hp tracker = Inr rHp"
       "calculatePossibleIVRange F NATURES attack tracker = Inr rAttack"
       "calculatePossibleIVRange F NATURES defense tracker = Inr rDefense"
       "calculatePossibleIVRange F NATURES spAttack tracker = Inr rSpAttack"
       "calculatePossibleIVRange F NATURES spDefense tracker = Inr rSpDefense"
       "calculatePossibleIVRange F NATURES speed tracker = Inr rSpeed"
    unfolding calculateAllPossibleIVRanges_def
    by (auto dest!: bindE_Inr)
  let ?P = "statRecord rHp rAttack rDefense rSpAttack rSpDefense rSpeed"
  let ?c = "if generation tracker \<le> 2 then (Some attack, Some attack)
            else calculatePossibleNature NATURES ?P tracker"
  have all: "\<forall>stat. calculatePossibleIVRange F NATURES stat tracker = Inr (?P stat)"
  proof
    fix stat show "calculatePossibleIVRange F NATURES stat tracker = Inr (?P stat)"
      using r by (cases stat) (simp_all add: statRecord_def)
  qed
  have "R = (\<lambda>stat. recombine ?c stat (?P stat))"
    using assms r unfolding calculateAllPossibleIVRanges_def
    by (simp add: bindE_def Let_def)
  with all show ?thesis by blast
qed

lemma foldEvolutions_returns:
  assumes "\<forall>p \<in> set evos. 0 \<le> fst p \<and> nat (fst p) < length (baseStats tracker)"
  shows "\<exists>r. foldEvolutions F tracker stat modifier acc evos = Inr r"
  using assms
proof (induction evos arbitrary: acc)
  case Nil
  then show ?case by simp
next
  case (Cons p evos)
  obtain evo segs where p: "p = (evo, segs)" by (cases p)
  with Cons.prems have "baseStatAt tracker evo stat = Inr ((baseStats tracker ! nat evo) stat)"
    by (simp add: baseStatAt_def)
  with p Cons show ?case by simp
qed

lemma calculatePossibleIVRange_returns:
  assumes "\<forall>p \<in> set (recordedStats tracker). 0 \<le> fst p \<and> nat (fst p) < length (baseStats tracker)"
  shows "\<exists>r. calculatePossibleIVRange F NATURES stat tracker = Inr r"
proof -
  from foldEvolutions_returns[OF assms] obtain neg neu pos where
    "observedRegime F tracker stat Negative = Inr neg"
    "observedRegime F tracker stat Neutral = Inr neu"
    "observedRegime F tracker stat Positive = Inr pos"
    unfolding observedRegime_def by metis
  then show ?thesis
    by (simp add: calculatePossibleIVRange_def bindE_def Let_def)
qed

lemma calculateAllPossibleIVRanges_returns:
  assumes "\<forall>p \<in> set (recordedStats tracker). 0 \<le> fst p \<and> nat (fst p) < length (baseStats tracker)"
  shows "\<exists>R. calculateAllPossibleIVRanges F NATURES tracker = Inr R"
proof -
  from calculatePossibleIVRange_returns[OF assms] obtain P where
    "\<forall>stat. calculatePossibleIVRange F NATURES stat tracker = Inr (P stat)"
    by metis
  then show ?thesis
    by (simp add: calculateAllPossibleIVRanges_def bindE_def Let_def)
qed

text \<open>The invariant along the fold.\<close>

lemma validInterval_cases:
  assumes "validInterval i"
  obtains "i = sentinel"
  | lo hi where "i = (Fin lo, Fin hi)" and "0 \<le> lo" and "lo \<le> hi" and "hi \<le> 31"
  using assms
  by (cases i; cases "fst i"; cases "snd i") (auto simp: validInterval_def sentinel_def)

lemma validInterval_sentinel: "validInterval sentinel"
  by (simp add: validInterval_def sentinel_def)

lemma validInterval_Fin:
  "0 \<le> lo \<Longrightarrow> lo \<le> hi \<Longrightarrow> hi \<le> 31 \<Longrightarrow> validInterval (Fin lo, Fin hi)"
  by (simp add: validInterval_def)

lemma narrowStep_valid:
  assumes "validInterval acc"
  shows "validInterval (narrowStep F tracker stat modifier baseStat acc entry)"
proof -
  consider "narrowStep F tracker stat modifier baseStat acc entry = sentinel"
    | "narrowStep F tracker stat modifier baseStat acc entry = acc"
    | lo hi lo' hi' where "acc = (Fin lo, Fin hi)"
        "narrowStep F tracker stat modifier baseStat acc entry = (Fin lo', Fin hi')"
        "lo \<le> lo'" "lo' \<le> hi'" "hi' \<le> hi"
    using narrowStep_cases[of F tracker stat modifier baseStat acc entry] by blast
  then show ?thesis
  proof cases
    case 1
    then show ?thesis by (simp add: validInterval_sentinel)
  next
    case 2
    then show ?thesis using assms by simp
  next
    case 3
    from assms show ?thesis
    proof (cases rule: validInterval_cases)
      case 1
      with 3(1) have "lo = - 1" "hi = - 1" by (simp_all add: sentinel_def)
      with 3 have "lo' = - 1 \<and> hi' = - 1" by linarith
      with 3(2) show ?thesis by (simp add: validInterval_def)
    next
      case (2 l h)
      with 3(1) have "l = lo" "h = hi" by simp_all
      with 2 3 have "0 \<le> lo'" "hi' \<le> 31" by linarith+
      with 3 show ?thesis by (simp add: validInterval_Fin)
    qed
  qed
qed

lemma foldSegments_valid:
  assumes "validInterval acc"
  shows "validInterval (foldSegments F tracker stat modifier baseStat acc statSegments)"
  using assms
proof (induction statSegments arbitrary: acc)
  case Nil
  then show ?case by (simp add: foldSegments_def)
next
  case (Cons e statSegments)
  from Cons.IH[OF narrowStep_valid[OF Cons.prems]] show ?case
    by (simp add: foldSegments_def)
qed

lemma foldEvolutions_valid:
  assumes "foldEvolutions F tracker stat modifier acc evos = Inr r" and "validInterval acc"
  shows "validInterval r"
  using assms
proof (induction evos arbitrary: acc)
  case Nil
  then show ?case by simp
next
  case (Cons p evos)
  obtain evo segs where p: "p = (evo, segs)" by (cases p)
  show ?case
  proof (cases "baseStatAt tracker evo stat")
    case (Inl e)
    with Cons.prems p show ?thesis by simp
  next
    case (Inr b)
    with Cons.prems p have
      "foldEvolutions F tracker stat modifier (foldSegments F tracker stat modifier b acc segs) evos = Inr r"
      by simp
    from Cons.IH[OF this foldSegments_valid[OF Cons.prems(2)]] show ?thesis .
  qed
qed

lemma observedRegime_valid:
  "observedRegime F tracker stat key = Inr r \<Longrightarrow> validInterval r"
  unfolding observedRegime_def
  by (erule foldEvolutions_valid) (simp add: validInterval_def)

lemma combinedOf_valid:
  assumes "validInterval pos" and "validInterval neg" and "validInterval neu"
    and "\<not> (pos = sentinel \<and> neg = sentinel \<and> neu = sentinel)"
  shows "validInterval (combinedOf pos neg neu)"
proof -
  have s: "fst sentinel = Fin (- 1)" "snd sentinel = Fin (- 1)" by (simp_all add: sentinel_def)
  have f: "Fin a \<noteq> Fin (- 1)" if "0 \<le> a" for a using that by simp
  from assms(1) show ?thesis
  proof (cases rule: validInterval_cases)
    case p: 1
    from assms(2) show ?thesis
    proof (cases rule: validInterval_cases)
      case n: 1
      from assms(3) show ?thesis
      proof (cases rule: validInterval_cases)
        case 1
        with p n assms(4) show ?thesis by simp
      next
        case (2 lo hi)
        then show ?thesis using p n
          by (auto simp: combinedOf_def s mathMin_def mathMax_def validInterval_def)
      qed
    next
      case n: (2 nlo nhi)
      from assms(3) show ?thesis
      proof (cases rule: validInterval_cases)
        case 1
        then show ?thesis using p n
          by (auto simp: combinedOf_def s mathMin_def mathMax_def validInterval_def)
      next
        case (2 lo hi)
        then show ?thesis using p n
          by (auto simp: combinedOf_def s mathMin_def mathMax_def validInterval_def)
      qed
    qed
  next
    case p: (2 plo phi)
    from assms(2) show ?thesis
    proof (cases rule: validInterval_cases)
      case n: 1
      from assms(3) show ?thesis
      proof (cases rule: validInterval_cases)
        case 1
        then show ?thesis using p n
          by (auto simp: combinedOf_def s mathMin_def mathMax_def validInterval_def)
      next
        case (2 lo hi)
        then show ?thesis using p n
          by (auto simp: combinedOf_def s mathMin_def mathMax_def validInterval_def)
      qed
    next
      case n: (2 nlo nhi)
      from assms(3) show ?thesis
      proof (cases rule: validInterval_cases)
        case 1
        then show ?thesis using p n
          by (auto simp: combinedOf_def s mathMin_def mathMax_def validInterval_def)
      next
        case (2 lo hi)
        then show ?thesis using p n
          by (auto simp: combinedOf_def s mathMin_def mathMax_def validInterval_def)
      qed
    qed
  qed
qed

lemma validInterval_finite: "validInterval i \<Longrightarrow> isFinite (fst i) \<and> isFinite (snd i)"
  by (erule validInterval_cases) (simp_all add: sentinel_def)

text \<open>
  What \<open>calculatePossibleIVRange\<close> returns when the tracker's static and direct-input
  IV for the stat are -1 or within 0..31: the three regime intervals keep the invariant,
  and \<open>combined\<close> keeps it unless all three regimes are the sentinel on the
  observed-data path.
\<close>

lemma calculatePossibleIVRange_valid:
  assumes r: "calculatePossibleIVRange F NATURES stat tracker = Inr r"
    and st: "staticIVs tracker stat = - 1
             \<or> (0 \<le> staticIVs tracker stat \<and> staticIVs tracker stat \<le> 31)"
    and di: "directInputIVs tracker stat = - 1
             \<or> (0 \<le> directInputIVs tracker stat \<and> directInputIVs tracker stat \<le> 31)"
  shows "validInterval (negative r) \<and> validInterval (neutral r) \<and> validInterval (positive r)
       \<and> (validInterval (combined r)
          \<or> (negative r = sentinel \<and> neutral r = sentinel \<and> positive r = sentinel
              \<and> combined r = (PosInf, NegInf)))"
proof (cases "staticIVs tracker stat \<noteq> - 1")
  case True
  with st have "validInterval (Fin (staticIVs tracker stat), Fin (staticIVs tracker stat))"
    by (simp add: validInterval_def)
  moreover have "validInterval (Fin (- 1), Fin (- 1))" by (simp add: validInterval_def)
  ultimately show ?thesis
    using r True by (auto simp: calculatePossibleIVRange_def Let_def)
next
  case static: False
  show ?thesis
  proof (cases "directInput tracker")
    case True
    from di have "validInterval (Fin (directInputIVs tracker stat), Fin (directInputIVs tracker stat))"
      by (auto simp: validInterval_def)
    moreover have "validInterval (Fin (- 1), Fin (- 1))" by (simp add: validInterval_def)
    ultimately show ?thesis
      using r static True by (auto simp: calculatePossibleIVRange_def Let_def)
  next
    case False
    from r static False obtain neg neu pos where
      o: "observedRegime F tracker stat Negative = Inr neg"
         "observedRegime F tracker stat Neutral = Inr neu"
         "observedRegime F tracker stat Positive = Inr pos"
      and rr: "r = \<lparr> negative = neg, neutral = neu, positive = pos,
                      combined = combinedOf pos neg neu \<rparr>"
      by (auto simp: calculatePossibleIVRange_def Let_def dest!: bindE_Inr)
    note v = observedRegime_valid[OF o(1)] observedRegime_valid[OF o(2)]
      observedRegime_valid[OF o(3)]
    show ?thesis
    proof (cases "pos = sentinel \<and> neg = sentinel \<and> neu = sentinel")
      case True
      with rr v show ?thesis by (simp add: combined_of_sentinels)
    next
      case False
      from combinedOf_valid[OF v(3) v(1) v(2) False] rr v show ?thesis by simp
    qed
  qed
qed

lemma calculatePossibleIVRange_finiteRegimes:
  assumes r: "calculatePossibleIVRange F NATURES stat tracker = Inr r"
  shows "finiteRegimes r"
proof (cases "staticIVs tracker stat \<noteq> - 1 \<or> directInput tracker")
  case True
  with r show ?thesis
    by (auto simp: calculatePossibleIVRange_def Let_def finiteRegimes_def split: if_splits)
next
  case False
  with r obtain neg neu pos where
    o: "observedRegime F tracker stat Negative = Inr neg"
       "observedRegime F tracker stat Neutral = Inr neu"
       "observedRegime F tracker stat Positive = Inr pos"
    and rr: "r = \<lparr> negative = neg, neutral = neu, positive = pos,
                    combined = combinedOf pos neg neu \<rparr>"
    by (auto simp: calculatePossibleIVRange_def Let_def dest!: bindE_Inr)
  from observedRegime_valid[OF o(1)] observedRegime_valid[OF o(2)]
    observedRegime_valid[OF o(3)] rr
  show ?thesis by (simp add: finiteRegimes_def validInterval_finite)
qed

lemma calculateAllPossibleIVRanges_finiteRegimes:
  assumes "calculateAllPossibleIVRanges F NATURES tracker = Inr R"
  shows "finiteRegimes (R stat)"
proof -
  from calculateAll_Inr[OF assms] obtain confirmed P where
    p: "\<forall>stat. calculatePossibleIVRange F NATURES stat tracker = Inr (P stat)"
    and r: "R = (\<lambda>stat. recombine confirmed stat (P stat))"
    by blast
  from p have "finiteRegimes (P stat)"
    using calculatePossibleIVRange_finiteRegimes by blast
  with r show ?thesis by (simp add: recombine_def finiteRegimes_def)
qed

text \<open>
  The bounds that \<^verbatim>\<open>Math.min\<close> and \<^verbatim>\<open>Math.max\<close> give for a list of valid intervals after
  the sentinel bounds are filtered out: a valid interval, or
  \<^verbatim>\<open>[Infinity, -Infinity]\<close> when every interval of the list is the sentinel.
\<close>

lemma bounds_of_valid_intervals:
  assumes "\<forall>i \<in> set is. validInterval i"
  shows "(mathMin (filter (\<lambda>v. v \<noteq> Fin (- 1)) (map fst is)),
          mathMax (filter (\<lambda>v. v \<noteq> Fin (- 1)) (map snd is))) = (PosInf, NegInf)
           \<and> (\<forall>i \<in> set is. i = sentinel)
         \<or> (\<exists>lo hi. (mathMin (filter (\<lambda>v. v \<noteq> Fin (- 1)) (map fst is)),
                       mathMax (filter (\<lambda>v. v \<noteq> Fin (- 1)) (map snd is))) = (Fin lo, Fin hi)
                \<and> 0 \<le> lo \<and> lo \<le> hi \<and> hi \<le> 31)"
  using assms
proof (induction "is")
  case Nil
  then show ?case by (simp add: mathMin_def mathMax_def)
next
  case (Cons x xs)
  let ?lo = "mathMin (filter (\<lambda>v. v \<noteq> Fin (- 1)) (map fst xs))"
  let ?hi = "mathMax (filter (\<lambda>v. v \<noteq> Fin (- 1)) (map snd xs))"
  from Cons.prems have vx: "validInterval x" and vxs: "\<forall>i \<in> set xs. validInterval i"
    by simp_all
  from vx show ?case
  proof (cases rule: validInterval_cases)
    case 1
    then have "mathMin (filter (\<lambda>v. v \<noteq> Fin (- 1)) (map fst (x # xs))) = ?lo"
      and "mathMax (filter (\<lambda>v. v \<noteq> Fin (- 1)) (map snd (x # xs))) = ?hi"
      by (simp_all add: sentinel_def)
    with Cons.IH[OF vxs] 1 show ?thesis by simp
  next
    case (2 a b)
    then have l: "mathMin (filter (\<lambda>v. v \<noteq> Fin (- 1)) (map fst (x # xs))) = jsMin (Fin a) ?lo"
      and h: "mathMax (filter (\<lambda>v. v \<noteq> Fin (- 1)) (map snd (x # xs))) = jsMax (Fin b) ?hi"
      by (simp_all add: mathMin_def mathMax_def)
    from Cons.IH[OF vxs] consider "?lo = PosInf" "?hi = NegInf"
      | lo hi where "?lo = Fin lo" "?hi = Fin hi" "0 \<le> lo" "lo \<le> hi" "hi \<le> 31"
      by auto
    then show ?thesis
    proof cases
      case 1
      with l h 2 show ?thesis by simp
    next
      case (2 lo hi)
      with l h \<open>0 \<le> a\<close> \<open>a \<le> b\<close> \<open>b \<le> 31\<close> show ?thesis by auto
    qed
  qed
qed

lemma recombine_valid:
  assumes "validInterval (negative r)" and "validInterval (neutral r)"
    and "validInterval (positive r)"
  shows "validInterval (combined (recombine confirmed stat r))
       \<or> (combined (recombine confirmed stat r) = (PosInf, NegInf)
          \<and> (\<forall>i \<in> set (relevantRanges confirmed stat r). i = sentinel))"
proof -
  obtain cn cp where c: "confirmed = (cn, cp)" by (cases confirmed)
  have "\<forall>i \<in> set (relevantRanges confirmed stat r). validInterval i"
    using assms by (auto simp: relevantRanges_def c split: if_splits)
  from bounds_of_valid_intervals[OF this] show ?thesis
    by (auto simp: recombine_def validInterval_def)
qed

lemma calculateAllPossibleIVRanges_valid:
  assumes R: "calculateAllPossibleIVRanges F NATURES tracker = Inr R"
    and st: "staticIVs tracker stat = - 1
             \<or> (0 \<le> staticIVs tracker stat \<and> staticIVs tracker stat \<le> 31)"
    and di: "directInputIVs tracker stat = - 1
             \<or> (0 \<le> directInputIVs tracker stat \<and> directInputIVs tracker stat \<le> 31)"
  shows "validInterval (negative (R stat)) \<and> validInterval (neutral (R stat))
       \<and> validInterval (positive (R stat))
       \<and> (validInterval (combined (R stat)) \<or> combined (R stat) = (PosInf, NegInf))"
proof -
  from calculateAll_Inr[OF R] obtain confirmed P where
    p: "\<forall>stat. calculatePossibleIVRange F NATURES stat tracker = Inr (P stat)"
    and r: "R = (\<lambda>stat. recombine confirmed stat (P stat))"
    by blast
  from p have "calculatePossibleIVRange F NATURES stat tracker = Inr (P stat)" by blast
  from calculatePossibleIVRange_valid[OF this st di]
  have v: "validInterval (negative (P stat))" "validInterval (neutral (P stat))"
    "validInterval (positive (P stat))" by simp_all
  from recombine_valid[OF v, of confirmed stat] v r show ?thesis
    by (auto simp: recombine_def)
qed

text \<open>
  Claim C1. The code does not keep the invariant for \<open>combined\<close>: when the three regime
  intervals of a stat are the sentinel on the observed-data path, the list passed to
  \<^verbatim>\<open>Math.min\<close> and \<^verbatim>\<open>Math.max\<close> is empty and \<open>combined\<close> is
  \<^verbatim>\<open>[Infinity, -Infinity]\<close>, which is not a valid interval, in
  \<open>calculatePossibleIVRange\<close> and again in \<open>calculateAllPossibleIVRanges\<close>, whatever
  nature is confirmed. With the tracker's own IVs in range, the three regime intervals
  always keep the invariant, and \<open>combined\<close> keeps it unless every interval that
  enters it is the sentinel (\<open>calculatePossibleIVRange_valid\<close>,
  \<open>calculateAllPossibleIVRanges_valid\<close>).
\<close>

theorem combined_is_infinite_when_all_regimes_are_sentinel:
  assumes "staticIVs tracker stat = - 1"
    and "\<not> directInput tracker"
    and "observedRegime F tracker stat Negative = Inr sentinel"
    and "observedRegime F tracker stat Neutral = Inr sentinel"
    and "observedRegime F tracker stat Positive = Inr sentinel"
  shows "calculatePossibleIVRange F NATURES stat tracker
         = Inr \<lparr> negative = sentinel, neutral = sentinel, positive = sentinel,
                 combined = (PosInf, NegInf) \<rparr>
       \<and> (\<forall>R. calculateAllPossibleIVRanges F NATURES tracker = Inr R
             \<longrightarrow> negative (R stat) = sentinel \<and> neutral (R stat) = sentinel
                 \<and> positive (R stat) = sentinel \<and> combined (R stat) = (PosInf, NegInf))
       \<and> \<not> validInterval (PosInf, NegInf)"
proof -
  have one: "calculatePossibleIVRange F NATURES stat tracker
         = Inr \<lparr> negative = sentinel, neutral = sentinel, positive = sentinel,
                 combined = (PosInf, NegInf) \<rparr>"
    using assms
    by (simp add: calculatePossibleIVRange_def bindE_def combined_of_sentinels)
  have "negative (R stat) = sentinel \<and> neutral (R stat) = sentinel
        \<and> positive (R stat) = sentinel \<and> combined (R stat) = (PosInf, NegInf)"
    if "calculateAllPossibleIVRanges F NATURES tracker = Inr R" for R
  proof -
    from calculateAll_Inr[OF that] obtain confirmed P where
      p: "\<forall>stat. calculatePossibleIVRange F NATURES stat tracker = Inr (P stat)"
      and r: "R = (\<lambda>stat. recombine confirmed stat (P stat))"
      by blast
    from p one have ps: "P stat = \<lparr> negative = sentinel, neutral = sentinel,
        positive = sentinel, combined = (PosInf, NegInf) \<rparr>"
      by simp
    then have "combined (recombine confirmed stat (P stat)) = (PosInf, NegInf)"
      by (intro recombine_of_sentinels) simp_all
    with r ps show ?thesis by (simp add: recombine_def)
  qed
  moreover have "\<not> validInterval (PosInf, NegInf)" by (simp add: validInterval_def)
  ultimately show ?thesis using one by blast
qed

text \<open>The tracker \<open>contradicted\<close>: its attack of 14 at level 5 matches no IV in any regime.\<close>

theorem combined_is_infinite_when_all_regimes_are_sentinel_witness:
  "staticIVs contradicted attack = - 1
   \<and> \<not> directInput contradicted
   \<and> observedRegime sampleFormulas contradicted attack Negative = Inr sentinel
   \<and> observedRegime sampleFormulas contradicted attack Neutral = Inr sentinel
   \<and> observedRegime sampleFormulas contradicted attack Positive = Inr sentinel
   \<and> calculatePossibleIVRange sampleFormulas Map.empty attack contradicted
       = Inr \<lparr> negative = (Fin (- 1), Fin (- 1)), neutral = (Fin (- 1), Fin (- 1)),
               positive = (Fin (- 1), Fin (- 1)), combined = (PosInf, NegInf) \<rparr>
   \<and> (case calculateAllPossibleIVRanges sampleFormulas Map.empty contradicted of
         Inl e \<Rightarrow> False
       | Inr R \<Rightarrow> combined (R attack) = (PosInf, NegInf))
   \<and> \<not> validInterval (PosInf, NegInf)"
proof -
  have h1: "staticIVs contradicted attack = - 1"
    by (simp add: contradicted_def lillipup_def statRecord_def)
  have h2: "\<not> directInput contradicted"
    by (simp add: contradicted_def lillipup_def)
  have h3: "observedRegime sampleFormulas contradicted attack Negative = Inr sentinel"
    by (simp add: eval_simps)
  have h4: "observedRegime sampleFormulas contradicted attack Neutral = Inr sentinel"
    by (simp add: eval_simps)
  have h5: "observedRegime sampleFormulas contradicted attack Positive = Inr sentinel"
    by (simp add: eval_simps)
  have "\<forall>p \<in> set (recordedStats contradicted).
          0 \<le> fst p \<and> nat (fst p) < length (baseStats contradicted)"
    by (simp add: contradicted_def lillipup_def)
  note ret = calculateAllPossibleIVRanges_returns[OF this, of sampleFormulas Map.empty]
  note t = combined_is_infinite_when_all_regimes_are_sentinel[OF h1 h2 h3 h4 h5, of Map.empty]
  from ret obtain R where
    R: "calculateAllPossibleIVRanges sampleFormulas Map.empty contradicted = Inr R"
    by blast
  with t have "combined (R attack) = (PosInf, NegInf)" by blast
  with R t h1 h2 h3 h4 h5 show ?thesis by (simp add: sentinel_def)
qed


text \<open>
  Claim C2. In direct-input mode with no static IV for the stat and no static nature
  definition, the code does not do what the claim says: every regime is the single
  value \<open>directInputIV\<close>, whatever the manual selections are, because each
  \<open>clamp\<close> flag is true without a static nature and is joined to the negated
  \<open>restrict\<close> flag by a disjunction.
\<close>

theorem direct_input_ignores_manual_selection:
  assumes "staticIVs tracker stat = - 1"
    and "directInput tracker"
    and "staticNatureDefinition NATURES tracker = None"
  shows "calculatePossibleIVRange F NATURES stat tracker
       = Inr \<lparr> negative = (Fin (directInputIVs tracker stat), Fin (directInputIVs tracker stat)),
               neutral = (Fin (directInputIVs tracker stat), Fin (directInputIVs tracker stat)),
               positive = (Fin (directInputIVs tracker stat), Fin (directInputIVs tracker stat)),
               combined = (Fin (directInputIVs tracker stat), Fin (directInputIVs tracker stat)) \<rparr>"
  using assms
  by (simp add: calculatePossibleIVRange_def clampNegative_def clampNeutral_def
        clampPositive_def Let_def)

text \<open>
  The tracker \<open>pinned\<close>: attack is manually selected as the increased stat, so the
  selection excludes the positive regime of defense, and that regime is still 15..15.
\<close>

theorem direct_input_ignores_manual_selection_witness:
  "staticIVs pinned defense = - 1 \<and> directInput pinned
   \<and> staticNatureDefinition Map.empty pinned = None
   \<and> manualPositiveNature pinned = Some attack
   \<and> restrictPositive pinned defense
   \<and> calculatePossibleIVRange sampleFormulas Map.empty defense pinned
       = Inr \<lparr> negative = (Fin 15, Fin 15), neutral = (Fin 15, Fin 15),
               positive = (Fin 15, Fin 15), combined = (Fin 15, Fin 15) \<rparr>"
proof -
  have h1: "staticIVs pinned defense = - 1"
    by (simp add: pinned_def lillipup_def statRecord_def)
  have h2: "directInput pinned" by (simp add: pinned_def)
  have h3: "staticNatureDefinition Map.empty pinned = None"
    by (simp add: staticNatureDefinition_def pinned_def lillipup_def)
  have h4: "manualPositiveNature pinned = Some attack" by (simp add: pinned_def)
  have h5: "restrictPositive pinned defense"
    by (simp add: restrictPositive_def pinned_def lillipup_def)
  have h6: "directInputIVs pinned defense = 15"
    by (simp add: pinned_def statRecord_def)
  show ?thesis
    using direct_input_ignores_manual_selection[OF h1 h2 h3, of sampleFormulas] h1 h2 h3 h4 h5
    by (simp add: h6)
qed


section \<open>The claims about \<open>castRouteVariableAsType\<close>\<close>














text \<open>
  Claim C10. Under the tag \<open>number\<close> a defined string yields \<^verbatim>\<open>NaN\<close> exactly when,
  after leading white space and one sign, it has no leading decimal digit; the empty
  string and \<open>abc\<close> are such strings. The function has no failing branch and no
  default value: the result is the number \<^verbatim>\<open>NaN\<close>.
\<close>

theorem cast_number_without_digits_is_NaN:
  "(castRouteVariableAsType ''number'' (Some v) = VNumber NaN \<longleftrightarrow> leadingDigits v = [])
   \<and> castRouteVariableAsType ''number'' (Some '''') = VNumber NaN
   \<and> castRouteVariableAsType ''number'' (Some ''abc'') = VNumber NaN"
  by (simp add: castRouteVariableAsType_def parseInt10_def leadingDigits_def Let_def
        stripSign_def isDigit_def isStrWhiteSpaceChar_def)

theorem cast_number_without_digits_is_NaN_witness:
  "leadingDigits '' -px'' = []
   \<and> castRouteVariableAsType ''number'' (Some '' -px'') = VNumber NaN"
proof -
  have h: "leadingDigits '' -px'' = []"
    by (simp add: leadingDigits_def stripSign_def isDigit_def isStrWhiteSpaceChar_def)
  with cast_number_without_digits_is_NaN[of "'' -px''"] show ?thesis by blast
qed


section \<open>The claim about the hidden-power resolver\<close>

lemma getIVValuesInSection_returns:
  assumes "isFinite (fst bounds)" and "isFinite (snd bounds)"
  shows "\<exists>vs. getIVValuesInSection bounds = Inr vs"
proof -
  obtain a b where "bounds = (Fin a, Fin b)"
    using assms by (cases bounds; cases "fst bounds"; cases "snd bounds") auto
  then show ?thesis by (simp add: getIVValuesInSection_def)
qed

lemma getUniqueIVValuesInRangeSet_returns:
  assumes "finiteRegimes r"
  shows "\<exists>vs. getUniqueIVValuesInRangeSet r stat confirmedNature = Inr vs"
proof -
  obtain n where n: "getIVValuesInSection (negative r) = Inr n"
    using assms getIVValuesInSection_returns[of "negative r"] by (auto simp: finiteRegimes_def)
  obtain u where u: "getIVValuesInSection (neutral r) = Inr u"
    using assms getIVValuesInSection_returns[of "neutral r"] by (auto simp: finiteRegimes_def)
  obtain p where p: "getIVValuesInSection (positive r) = Inr p"
    using assms getIVValuesInSection_returns[of "positive r"] by (auto simp: finiteRegimes_def)
  obtain cn cp where c: "confirmedNature = (cn, cp)" by (cases confirmedNature)
  show ?thesis
    by (simp add: getUniqueIVValuesInRangeSet_def c n u p bindE_def)
qed

lemma calculateOddnessProbababilityOfStat_returns:
  assumes "finiteRegimes r"
  shows "\<exists>q. calculateOddnessProbababilityOfStat r stat confirmedNature odd' = Inr q \<and> 0 \<le> q"
proof -
  from getUniqueIVValuesInRangeSet_returns[OF assms] obtain vs where
    "getUniqueIVValuesInRangeSet r stat confirmedNature = Inr vs" by blast
  then show ?thesis
    by (simp add: calculateOddnessProbababilityOfStat_def bindE_def)
qed

lemma calculateHiddenPowerProbability_returns:
  assumes "\<forall>stat. finiteRegimes (ivs stat)"
  shows "\<exists>p. calculateHiddenPowerProbability ivs confirmedNature combination = Inr p \<and> 0 \<le> p"
proof -
  obtain b1 b2 b3 b4 b5 b6 where c: "combination = (b1, b2, b3, b4, b5, b6)"
    by (cases combination) auto
  have f: "finiteRegimes (ivs stat)" for stat using assms by simp
  obtain p1 where p1: "calculateOddnessProbababilityOfStat (ivs hp) hp confirmedNature b1 = Inr p1" "0 \<le> p1"
    using calculateOddnessProbababilityOfStat_returns[OF f] by blast
  obtain p2 where p2: "calculateOddnessProbababilityOfStat (ivs attack) attack confirmedNature b2 = Inr p2" "0 \<le> p2"
    using calculateOddnessProbababilityOfStat_returns[OF f] by blast
  obtain p3 where p3: "calculateOddnessProbababilityOfStat (ivs defense) defense confirmedNature b3 = Inr p3" "0 \<le> p3"
    using calculateOddnessProbababilityOfStat_returns[OF f] by blast
  obtain p4 where p4: "calculateOddnessProbababilityOfStat (ivs spAttack) spAttack confirmedNature b4 = Inr p4" "0 \<le> p4"
    using calculateOddnessProbababilityOfStat_returns[OF f] by blast
  obtain p5 where p5: "calculateOddnessProbababilityOfStat (ivs spDefense) spDefense confirmedNature b5 = Inr p5" "0 \<le> p5"
    using calculateOddnessProbababilityOfStat_returns[OF f] by blast
  obtain p6 where p6: "calculateOddnessProbababilityOfStat (ivs speed) speed confirmedNature b6 = Inr p6" "0 \<le> p6"
    using calculateOddnessProbababilityOfStat_returns[OF f] by blast
  have "calculateHiddenPowerProbability ivs confirmedNature combination
      = Inr (p1 * p2 * p3 * p4 * p5 * p6)"
    by (simp add: calculateHiddenPowerProbability_def c bindE_def p1 p2 p3 p4 p5 p6)
  moreover have "0 \<le> p1 * p2 * p3 * p4 * p5 * p6"
    using p1(2) p2(2) p3(2) p4(2) p5(2) p6(2) by simp
  ultimately show ?thesis by blast
qed

lemma mapE_all_return:
  assumes "\<forall>x \<in> set xs. f x = Inr (g x)"
  shows "mapE f xs = Inr (map g xs)"
  using assms by (induction xs) (simp_all add: bindE_def)

lemma mostProbable_keeps_Some:
  "snd acc \<noteq> None \<Longrightarrow> snd (foldl mostProbableStep acc entries) \<noteq> None"
proof (induction entries arbitrary: acc)
  case Nil
  then show ?case by simp
next
  case (Cons e entries)
  have "snd (mostProbableStep acc e) \<noteq> None"
    using Cons.prems unfolding mostProbableStep_def by (cases "snd e > fst acc") simp_all
  from Cons.IH[OF this] show ?case by simp
qed

lemma mostProbable_None_iff:
  "snd (foldl mostProbableStep (0, None) entries) = None \<longleftrightarrow> (\<forall>e \<in> set entries. snd e \<le> 0)"
proof (induction entries)
  case Nil
  then show ?case by simp
next
  case (Cons e entries)
  show ?case
  proof (cases "snd e > 0")
    case True
    then have "mostProbableStep (0, None) e = (snd e, Some (fst e))"
      by (simp add: mostProbableStep_def)
    then have "snd (foldl mostProbableStep (0, None) (e # entries)) \<noteq> None"
      using mostProbable_keeps_Some[of "(snd e, Some (fst e))" entries] by simp
    with True show ?thesis by auto
  next
    case False
    then have "mostProbableStep (0, None) e = (0, None)"
      by (simp add: mostProbableStep_def)
    with False Cons.IH show ?thesis by auto
  qed
qed


lemma hiddenPowerIndex_bounds:
  "0 \<le> hiddenPowerIndex combination \<and> hiddenPowerIndex combination \<le> 15"
proof -
  obtain b1 b2 b3 b4 b5 b6 where c: "combination = (b1, b2, b3, b4, b5, b6)"
    by (cases combination) auto
  define x1 :: int where "x1 = (if b1 then 1 else 0)"
  define x2 :: int where "x2 = (if b2 then 1 else 0)"
  define x3 :: int where "x3 = (if b3 then 1 else 0)"
  define x4 :: int where "x4 = (if b4 then 1 else 0)"
  define x5 :: int where "x5 = (if b5 then 1 else 0)"
  define x6 :: int where "x6 = (if b6 then 1 else 0)"
  define w where "w = x1 + x2 * 2 + x3 * 4 + x6 * 8 + x4 * 16 + x5 * 32"
  have b: "0 \<le> x1" "x1 \<le> 1" "0 \<le> x2" "x2 \<le> 1" "0 \<le> x3" "x3 \<le> 1"
    "0 \<le> x4" "x4 \<le> 1" "0 \<le> x5" "x5 \<le> 1" "0 \<le> x6" "x6 \<le> 1"
    by (simp_all add: x1_def x2_def x3_def x4_def x5_def x6_def)
  have w: "0 \<le> w" "w \<le> 63" unfolding w_def using b by linarith+
  have "0 \<le> (w * 15) div 63"
    using w(1) by (simp add: pos_imp_zdiv_nonneg_iff)
  moreover have "(w * 15) div 63 \<le> (63 * 15) div 63"
    using w(2) by (intro zdiv_mono1) simp_all
  moreover have "hiddenPowerIndex combination = (w * 15) div 63"
    by (simp add: hiddenPowerIndex_def c w_def Let_def
          x1_def x2_def x3_def x4_def x5_def x6_def)
  ultimately show ?thesis by simp
qed

lemma set_cartesianProduct6: "set cartesianProduct6 = UNIV"
proof -
  have "x \<in> set cartesianProduct6" for x
  proof -
    obtain b1 b2 b3 b4 b5 b6 where c: "x = (b1, b2, b3, b4, b5, b6)"
      by (cases x) auto
    show ?thesis unfolding c cartesianProduct6_def
      by (cases b1; cases b2; cases b3; cases b4; cases b5; cases b6) simp_all
  qed
  then show ?thesis by auto
qed

lemma length_cartesianProduct6: "length cartesianProduct6 = 64"
  by (simp add: cartesianProduct6_def)

text \<open>
  Claim C4. For range sets whose regime intervals have finite bounds, and so for every
  range set that \<open>calculateAllPossibleIVRanges\<close> returns,
  \<open>calculateHiddenPowerType\<close> returns; it returns \<^verbatim>\<open>null\<close> exactly when every one
  of the 64 parity combinations has probability zero, and otherwise the name that the
  list holds at the index of a combination. That index lies between 0 and 15 for every
  combination, so the result is never undefined.
\<close>

theorem hidden_power_null_iff_all_zero:
  assumes "(\<forall>stat. finiteRegimes (ivs stat))
           \<or> calculateAllPossibleIVRanges F NATURES tracker = Inr ivs"
  shows "\<exists>result. calculateHiddenPowerType ivs confirmedNature = Inr result
     \<and> (result = HPNull
          \<longleftrightarrow> (\<forall>combination.
                 calculateHiddenPowerProbability ivs confirmedNature combination = Inr 0))
     \<and> (result = HPNull
          \<or> (\<exists>combination. result = HPName (HIDDEN_POWER_TYPES ! nat (hiddenPowerIndex combination))
                \<and> HIDDEN_POWER_TYPES ! nat (hiddenPowerIndex combination) \<in> set HIDDEN_POWER_TYPES))
     \<and> (\<forall>combination. 0 \<le> hiddenPowerIndex combination \<and> hiddenPowerIndex combination \<le> 15)
     \<and> length cartesianProduct6 = 64 \<and> length HIDDEN_POWER_TYPES = 16"
proof -
  from assms have fin: "\<forall>stat. finiteRegimes (ivs stat)"
    using calculateAllPossibleIVRanges_finiteRegimes by blast
  have "\<forall>c. \<exists>p. calculateHiddenPowerProbability ivs confirmedNature c = Inr p \<and> 0 \<le> p"
    using calculateHiddenPowerProbability_returns[OF fin] by blast
  then obtain g where g: "\<And>c. calculateHiddenPowerProbability ivs confirmedNature c = Inr (g c)"
    and g0: "\<And>c. 0 \<le> g c"
    by metis
  let ?f = "\<lambda>combination.
              bindE (calculateHiddenPowerProbability ivs confirmedNature combination)
                (\<lambda>probability. Inr (combination, probability))"
  let ?probabilities = "map (\<lambda>c. (c, g c)) cartesianProduct6"
  have m: "mapE ?f cartesianProduct6 = Inr ?probabilities"
    by (rule mapE_all_return) (simp add: g bindE_def)
  have len: "length HIDDEN_POWER_TYPES = 16" by (simp add: HIDDEN_POWER_TYPES_def)
  have none: "snd (mostProbableCombination ?probabilities) = None \<longleftrightarrow> (\<forall>c. g c = 0)"
  proof -
    have "snd (mostProbableCombination ?probabilities) = None
        \<longleftrightarrow> (\<forall>e \<in> set ?probabilities. snd e \<le> 0)"
      unfolding mostProbableCombination_def by (rule mostProbable_None_iff)
    also have "\<dots> \<longleftrightarrow> (\<forall>c. g c \<le> 0)"
      by (simp add: set_cartesianProduct6)
    also have "\<dots> \<longleftrightarrow> (\<forall>c. g c = 0)"
      using g0 by (metis order_antisym order_refl)
    finally show ?thesis .
  qed
  have zero: "(\<forall>c. g c = 0)
      \<longleftrightarrow> (\<forall>c. calculateHiddenPowerProbability ivs confirmedNature c = Inr 0)"
    by (simp only: g sum.inject)
  from none zero have nz: "snd (mostProbableCombination ?probabilities) = None
      \<longleftrightarrow> (\<forall>c. calculateHiddenPowerProbability ivs confirmedNature c = Inr 0)"
    by (rule trans)
  have idx: "\<forall>combination. 0 \<le> hiddenPowerIndex combination \<and> hiddenPowerIndex combination \<le> 15"
    using hiddenPowerIndex_bounds by blast
  show ?thesis
  proof (cases "snd (mostProbableCombination ?probabilities)")
    case None
    then have r: "calculateHiddenPowerType ivs confirmedNature = Inr HPNull"
      unfolding calculateHiddenPowerType_def m by (simp add: bindE_def)
    have z: "\<forall>c. calculateHiddenPowerProbability ivs confirmedNature c = Inr 0"
      using None nz by blast
    show ?thesis
      apply (rule exI[of _ HPNull])
      using r z idx length_cartesianProduct6 len by blast
  next
    case (Some combination)
    have i: "0 \<le> hiddenPowerIndex combination" "nat (hiddenPowerIndex combination) < 16"
      using hiddenPowerIndex_bounds[of combination] by auto
    then have r: "calculateHiddenPowerType ivs confirmedNature
        = Inr (HPName (HIDDEN_POWER_TYPES ! nat (hiddenPowerIndex combination)))"
      using Some unfolding calculateHiddenPowerType_def m by (simp add: bindE_def len Let_def)
    have mem: "HIDDEN_POWER_TYPES ! nat (hiddenPowerIndex combination) \<in> set HIDDEN_POWER_TYPES"
      using i(2) len by simp
    have nzero: "\<not> (\<forall>c. calculateHiddenPowerProbability ivs confirmedNature c = Inr 0)"
      using Some nz by (metis option.distinct(1))
    have ne: "HPName (HIDDEN_POWER_TYPES ! nat (hiddenPowerIndex combination)) \<noteq> HPNull"
      by simp
    show ?thesis
      apply (rule exI[of _ "HPName (HIDDEN_POWER_TYPES ! nat (hiddenPowerIndex combination))"])
      using r mem nzero ne idx length_cartesianProduct6 len by blast
  qed
qed

text \<open>
  Two range sets: every IV is 31, where the combination of six odd IVs has probability
  1 and the result is the last name of the list; and no IV is possible, where every
  combination has probability 0 and the result is null.
\<close>

theorem hidden_power_null_iff_all_zero_witness:
  "(\<forall>stat. finiteRegimes (oddIVs stat))
   \<and> calculateHiddenPowerProbability oddIVs (None, None) (True, True, True, True, True, True)
       = Inr 1
   \<and> calculateHiddenPowerType oddIVs (None, None) = Inr (HPName ''Dark'')
   \<and> (\<forall>stat. finiteRegimes (impossibleIVs stat))
   \<and> calculateHiddenPowerType impossibleIVs (None, None) = Inr HPNull
   \<and> (case calculateAllPossibleIVRanges sampleFormulas Map.empty lillipup of
         Inl e \<Rightarrow> False
       | Inr R \<Rightarrow> \<not> isl (calculateHiddenPowerType R (Some spAttack, Some attack)))"
proof -
  have f1: "\<forall>stat. finiteRegimes (oddIVs stat)"
    by (simp add: finiteRegimes_def oddIVs_def)
  have f2: "\<forall>stat. finiteRegimes (impossibleIVs stat)"
    by (simp add: finiteRegimes_def impossibleIVs_def)
  have odd1: "calculateOddnessProbababilityOfStat (oddIVs stat) stat (None, None) True = Inr 1"
    for stat
    by (simp add: calculateOddnessProbababilityOfStat_def getUniqueIVValuesInRangeSet_def
          getIVValuesInSection_def oddIVs_def bindE_def range_incl_def uniqueInOrder_def
          jsRem_def)
  have p1: "calculateHiddenPowerProbability oddIVs (None, None)
              (True, True, True, True, True, True) = Inr 1"
    by (simp add: calculateHiddenPowerProbability_def odd1 bindE_def)
  have imp0: "calculateOddnessProbababilityOfStat (impossibleIVs stat) stat (None, None) b = Inr 0"
    for stat b
    by (simp add: calculateOddnessProbababilityOfStat_def getUniqueIVValuesInRangeSet_def
          getIVValuesInSection_def impossibleIVs_def bindE_def uniqueInOrder_def)
  have p0: "calculateHiddenPowerProbability impossibleIVs (None, None) c = Inr 0" for c
    by (cases c) (simp add: calculateHiddenPowerProbability_def imp0 bindE_def)
  from hidden_power_null_iff_all_zero[OF disjI1[OF f1], of "(None, None)"] obtain r1 where
    r1: "calculateHiddenPowerType oddIVs (None, None) = Inr r1"
    and n1: "r1 = HPNull \<longleftrightarrow> (\<forall>c. calculateHiddenPowerProbability oddIVs (None, None) c = Inr 0)"
    by blast
  have "r1 \<noteq> HPNull" using n1 p1 by (metis Inr_inject zero_neq_one)
  moreover have "calculateHiddenPowerType oddIVs (None, None) = Inr (HPName ''Dark'')"
    by code_simp
  ultimately have w1: "calculateHiddenPowerType oddIVs (None, None) = Inr (HPName ''Dark'')"
    using r1 by simp
  from hidden_power_null_iff_all_zero[OF disjI1[OF f2], of "(None, None)"] obtain r2 where
    r2: "calculateHiddenPowerType impossibleIVs (None, None) = Inr r2"
    and n2: "r2 = HPNull \<longleftrightarrow> (\<forall>c. calculateHiddenPowerProbability impossibleIVs (None, None) c = Inr 0)"
    by blast
  from n2 p0 have "r2 = HPNull" by blast
  with r2 have w2: "calculateHiddenPowerType impossibleIVs (None, None) = Inr HPNull" by simp
  have "\<forall>p \<in> set (recordedStats lillipup).
          0 \<le> fst p \<and> nat (fst p) < length (baseStats lillipup)"
    by (simp add: lillipup_def)
  from calculateAllPossibleIVRanges_returns[OF this, of sampleFormulas Map.empty]
  obtain R where R: "calculateAllPossibleIVRanges sampleFormulas Map.empty lillipup = Inr R"
    by blast
  from hidden_power_null_iff_all_zero[OF disjI2[OF R], of "(Some spAttack, Some attack)"]
  obtain r3 where "calculateHiddenPowerType R (Some spAttack, Some attack) = Inr r3"
    by blast
  with R have w3: "case calculateAllPossibleIVRanges sampleFormulas Map.empty lillipup of
         Inl e \<Rightarrow> False
       | Inr R \<Rightarrow> \<not> isl (calculateHiddenPowerType R (Some spAttack, Some attack))"
    by simp
  from f1 p1 w1 f2 w2 w3 show ?thesis by blast
qed


section \<open>The claim about \<open>parseTypeDefinition\<close>\<close>

text \<open>
  Claim C8. The code does not report every token outside the type-name list: when the
  first such token is the empty string, \<^verbatim>\<open>find\<close> returns it, the truthiness test
  treats it as no finding, \<^verbatim>\<open>onError\<close> is not called and the tokens are returned, the
  empty one among them.
\<close>

theorem empty_token_is_not_reported:
  assumes "find (\<lambda>segment. segment \<notin> set TYPE_NAMES) (typeSegments rawTypes) = Some []"
  shows "parseTypeDefinition TYPE_NAMES rawTypes = (typeSegments rawTypes, [])"
  using assms by (simp add: parseTypeDefinition_def Let_def)

lemma typeSegments_Fire_slash: "typeSegments ''Fire/'' = [''fire'', '''']"
  by code_simp

text \<open>The input \<open>Fire/\<close>: its second token is empty.\<close>

theorem empty_token_is_not_reported_witness:
  "[] \<notin> set sampleTypeNames
   \<and> typeSegments ''Fire/'' = [''fire'', '''']
   \<and> find (\<lambda>segment. segment \<notin> set sampleTypeNames) (typeSegments ''Fire/'') = Some []
   \<and> parseTypeDefinition sampleTypeNames ''Fire/'' = ([''fire'', ''''], [])"
proof -
  have h1: "[] \<notin> set sampleTypeNames" by (simp add: sampleTypeNames_def)
  have h2: "find (\<lambda>segment. segment \<notin> set sampleTypeNames) (typeSegments ''Fire/'') = Some []"
    by (simp add: typeSegments_Fire_slash sampleTypeNames_def)
  from empty_token_is_not_reported[OF h2] h1 h2 show ?thesis
    by (simp add: typeSegments_Fire_slash)
qed

text \<open>
  What \<open>parseTypeDefinition\<close> does on the other inputs: with every token in the list
  it returns the tokens and reports nothing, and with a first outside token that is not
  empty it returns the empty list and reports that token once.
\<close>

lemma parseTypeDefinition_all_known:
  assumes "set (typeSegments rawTypes) \<subseteq> set TYPE_NAMES"
  shows "parseTypeDefinition TYPE_NAMES rawTypes = (typeSegments rawTypes, [])"
proof -
  have "find (\<lambda>segment. segment \<notin> set TYPE_NAMES) (typeSegments rawTypes) = None"
    using assms by (auto simp: find_None_iff)
  then show ?thesis by (simp add: parseTypeDefinition_def)
qed

lemma parseTypeDefinition_reports:
  assumes "find (\<lambda>segment. segment \<notin> set TYPE_NAMES) (typeSegments rawTypes) = Some segment"
    and "segment \<noteq> []"
  shows "parseTypeDefinition TYPE_NAMES rawTypes = ([], [segment])"
  using assms by (simp add: parseTypeDefinition_def)

lemma parseTypeDefinition_Fire_Flying:
  assumes "''fire'' \<in> set TYPE_NAMES" and "''flying'' \<in> set TYPE_NAMES"
  shows "parseTypeDefinition TYPE_NAMES ''Fire/Flying'' = ([''fire'', ''flying''], [])"
proof -
  have "typeSegments ''Fire/Flying'' = [''fire'', ''flying'']" by code_simp
  with assms parseTypeDefinition_all_known[of "''Fire/Flying''" TYPE_NAMES]
  show ?thesis by simp
qed

section \<open>The fuel of the JSON parser\<close>

lemma length_takeWhile_dropWhile:
  "length (takeWhile P s) + length (dropWhile P s) = length s"
  by (metis length_append takeWhile_dropWhile_id)

lemma parseJsonChars_plain:
  assumes "c \<noteq> CHR 0x22" and "c \<noteq> CHR 0x5C"
  shows "parseJsonChars (c # rest) =
     (if (of_char c :: nat) < 32 then None
      else (case parseJsonChars rest of
              None \<Rightarrow> None
            | Some (units, rest3) \<Rightarrow> Some (of_char c # units, rest3)))"
  using assms by simp

lemma parseJsonChars_escape:
  assumes "e \<noteq> CHR ''u''"
  shows "parseJsonChars (CHR 0x5C # e # rest1) =
     (case escapeValue e of
        None \<Rightarrow> None
      | Some u \<Rightarrow>
          (case parseJsonChars rest1 of
             None \<Rightarrow> None
           | Some (units, rest3) \<Rightarrow> Some (u # units, rest3)))"
  using assms by simp

lemma parseJsonChars_unicode:
  "parseJsonChars (CHR 0x5C # CHR ''u'' # h1 # h2 # h3 # h4 # rest2) =
     (case (hexValue h1, hexValue h2, hexValue h3, hexValue h4) of
        (Some d1, Some d2, Some d3, Some d4) \<Rightarrow>
          (case parseJsonChars rest2 of
             None \<Rightarrow> None
           | Some (units, rest3) \<Rightarrow>
               Some ((((d1 * 16 + d2) * 16 + d3) * 16 + d4) # units, rest3))
      | _ \<Rightarrow> None)"
  by simp

lemma parseJsonChars_unicode_short:
  "length rest1 < 4 \<Longrightarrow> parseJsonChars (CHR 0x5C # CHR ''u'' # rest1) = None"
  by (cases rest1; cases "tl rest1"; cases "tl (tl rest1)"; cases "tl (tl (tl rest1))") auto

lemma parseJsonChars_shorter:
  "parseJsonChars s = Some (units, r) \<Longrightarrow> length r < length s"
proof (induction s arbitrary: units r rule: length_induct)
  case (1 s)
  note IH = "1.IH"[rule_format]
  from "1.prems" obtain c rest where s: "s = c # rest" by (cases s) auto
  show ?case
  proof (cases "c = CHR 0x22")
    case True
    with "1.prems" s show ?thesis by simp
  next
    case q: False
    show ?thesis
    proof (cases "c = CHR 0x5C")
      case False
      from "1.prems" obtain u where "parseJsonChars rest = Some (u, r)"
        unfolding s parseJsonChars_plain[OF q False]
        by (auto split: if_splits option.splits)
      from IH[OF _ this] show ?thesis by (simp add: s)
    next
      case b: True
      from "1.prems" b s obtain e rest1 where r1: "rest = e # rest1"
        by (cases rest) auto
      show ?thesis
      proof (cases "e = CHR ''u''")
        case False
        from "1.prems" obtain u where "parseJsonChars rest1 = Some (u, r)"
          unfolding s b r1 parseJsonChars_escape[OF False]
          by (auto split: option.splits)
        from IH[OF _ this] show ?thesis by (simp add: s r1)
      next
        case u: True
        have "\<not> length rest1 < 4"
          using "1.prems" parseJsonChars_unicode_short[of rest1] by (auto simp: s b r1 u)
        then obtain h1 h2 h3 h4 rest2 where r2: "rest1 = h1 # h2 # h3 # h4 # rest2"
          by (cases rest1; cases "tl rest1"; cases "tl (tl rest1)"; cases "tl (tl (tl rest1))")
             auto
        from "1.prems" obtain un where "parseJsonChars rest2 = Some (un, r)"
          unfolding s b r1 u r2 parseJsonChars_unicode
          by (auto split: option.splits)
        from IH[OF _ this] show ?thesis by (simp add: s r1 r2)
      qed
    qed
  qed
qed

lemma parseLiteral_shorter:
  "word \<noteq> [] \<Longrightarrow> parseLiteral word v s = Some (x, r) \<Longrightarrow> length r < length s"
  by (cases word) (auto simp: parseLiteral_def split: if_splits dest: arg_cong[where f=length])

lemma parseFraction_le:
  "parseFraction s = Some (f, r) \<Longrightarrow> length r \<le> length s"
  by (auto simp: parseFraction_def split: list.splits if_splits
        intro: le_trans[OF length_dropWhile_le])

lemma parseExponent_le:
  "parseExponent s = Some (e, r) \<Longrightarrow> length r \<le> length s"
proof -
  have "length (stripSign t) \<le> length t" for t
    by (simp add: stripSign_def split: list.splits)
  then have "length (dropWhile isDigit (stripSign t)) \<le> length t" for t
    using le_trans[OF length_dropWhile_le] by blast
  then show "parseExponent s = Some (e, r) \<Longrightarrow> length r \<le> length s"
    by (auto simp: parseExponent_def Let_def split: list.splits if_splits intro: le_SucI)
qed

lemma parseJsonNumber_shorter:
  assumes "parseJsonNumber s = Some (x, r)"
  shows "length r < length s"
proof -
  define s1 where "s1 = (if (case s of [] \<Rightarrow> False | c # _ \<Rightarrow> c = CHR ''-'') then tl s else s)"
  have l1: "length s1 \<le> length s" by (simp add: s1_def)
  from assms have ne: "takeWhile isDigit s1 \<noteq> []"
    by (auto simp: parseJsonNumber_def Let_def s1_def split: if_splits)
  from assms obtain f s2 e where
    pf: "parseFraction (dropWhile isDigit s1) = Some (f, s2)"
    and pe: "parseExponent s2 = Some (e, r)"
    by (auto simp: parseJsonNumber_def Let_def s1_def split: if_splits option.splits)
  have "length (dropWhile isDigit s1) < length s1"
    using ne length_takeWhile_dropWhile[of isDigit s1] by (cases "takeWhile isDigit s1") auto
  with parseFraction_le[OF pf] parseExponent_le[OF pe] l1 show ?thesis by linarith
qed

lemma parseJsonScalar_shorter:
  assumes "parseJsonScalar s = Some (v, r)"
  shows "length r < length s"
proof -
  from assms obtain c rest where s: "s = c # rest"
    by (cases s) (auto simp: parseJsonScalar_def)
  from assms consider
      u where "parseJsonChars rest = Some (u, r)"
    | w val where "w \<noteq> []" "parseLiteral w val s = Some (v, r)"
    | x where "parseJsonNumber s = Some (x, r)"
    unfolding parseJsonScalar_def s
    by (auto split: if_splits option.splits)
  then show ?thesis
  proof cases
    case 1
    from parseJsonChars_shorter[OF this] s show ?thesis by simp
  next
    case 2
    from parseLiteral_shorter[OF this] show ?thesis .
  next
    case 3
    from parseJsonNumber_shorter[OF this] show ?thesis .
  qed
qed

lemma parseJsonValue_Suc_cases:
  assumes "parseJsonValue (Suc n) s = Some (v, r)"
  obtains
    (empty_array) rest where "dropWhile isJsonWs s = CHR ''['' # rest"
      "dropWhile isJsonWs rest = CHR '']'' # r" "v = JArray []"
  | (array) rest c1 rest1 elements where "dropWhile isJsonWs s = CHR ''['' # rest"
      "dropWhile isJsonWs rest = c1 # rest1" "c1 \<noteq> CHR '']''"
      "parseJsonElements n rest = Some (elements, r)" "v = JArray elements"
  | (empty_object) rest where "dropWhile isJsonWs s = CHR ''{'' # rest"
      "dropWhile isJsonWs rest = CHR ''}'' # r" "v = JObject []"
  | (object) rest c1 rest1 members where "dropWhile isJsonWs s = CHR ''{'' # rest"
      "dropWhile isJsonWs rest = c1 # rest1" "c1 \<noteq> CHR ''}''"
      "parseJsonMembers n rest = Some (members, r)" "v = JObject members"
  | (scalar) c rest where "dropWhile isJsonWs s = c # rest" "c \<noteq> CHR ''[''" "c \<noteq> CHR ''{''"
      "parseJsonScalar (c # rest) = Some (v, r)"
proof -
  from assms obtain c rest where d: "dropWhile isJsonWs s = c # rest"
    by (cases "dropWhile isJsonWs s") auto
  show ?thesis
  proof (cases "c = CHR ''[''")
    case True
    from assms d True obtain c1 rest1 where d1: "dropWhile isJsonWs rest = c1 # rest1"
      by (cases "dropWhile isJsonWs rest") auto
    show ?thesis
    proof (cases "c1 = CHR '']''")
      case c: True
      with assms d True d1 empty_array show ?thesis by simp
    next
      case False
      with assms d True d1 obtain elements where
        "parseJsonElements n rest = Some (elements, r)" "v = JArray elements"
        by (auto split: option.splits)
      with d True d1 False array show ?thesis by blast
    qed
  next
    case na: False
    show ?thesis
    proof (cases "c = CHR ''{''")
      case True
      from assms d True obtain c1 rest1 where d1: "dropWhile isJsonWs rest = c1 # rest1"
        by (cases "dropWhile isJsonWs rest") auto
      show ?thesis
      proof (cases "c1 = CHR ''}''")
        case c: True
        with assms d True d1 empty_object show ?thesis by simp
      next
        case False
        with assms d True d1 obtain members where
          "parseJsonMembers n rest = Some (members, r)" "v = JObject members"
          by (auto split: option.splits)
        with d True d1 False object show ?thesis by blast
      qed
    next
      case False
      with assms d na have "parseJsonScalar (c # rest) = Some (v, r)" by simp
      with d na False scalar show ?thesis by blast
    qed
  qed
qed

lemma parseJsonElements_Suc_cases:
  assumes "parseJsonElements (Suc n) s = Some (vs, r)"
  obtains
    (last) v rest where "parseJsonValue n s = Some (v, rest)"
      "dropWhile isJsonWs rest = CHR '']'' # r" "vs = [v]"
  | (more) v rest rest1 vs' where "parseJsonValue n s = Some (v, rest)"
      "dropWhile isJsonWs rest = CHR '','' # rest1"
      "parseJsonElements n rest1 = Some (vs', r)" "vs = v # vs'"
proof -
  from assms obtain v rest where p: "parseJsonValue n s = Some (v, rest)"
    by (cases "parseJsonValue n s") auto
  from assms p obtain c rest1 where d: "dropWhile isJsonWs rest = c # rest1"
    by (cases "dropWhile isJsonWs rest") auto
  show ?thesis
  proof (cases "c = CHR '',''")
    case True
    with assms p d obtain vs' where "parseJsonElements n rest1 = Some (vs', r)" "vs = v # vs'"
      by (auto split: option.splits)
    with p d True more show ?thesis by blast
  next
    case False
    with assms p d have "c = CHR '']''" "r = rest1" "vs = [v]"
      by (auto split: if_splits)
    with p d last show ?thesis by blast
  qed
qed

lemma parseJsonMembers_Suc_cases:
  assumes "parseJsonMembers (Suc n) s = Some (ms, r)"
  obtains
    (last) rest key rest1 rest2 v rest3 where "dropWhile isJsonWs s = CHR 0x22 # rest"
      "parseJsonChars rest = Some (key, rest1)" "dropWhile isJsonWs rest1 = CHR '':'' # rest2"
      "parseJsonValue n rest2 = Some (v, rest3)" "dropWhile isJsonWs rest3 = CHR ''}'' # r"
      "ms = [(key, v)]"
  | (more) rest key rest1 rest2 v rest3 rest4 ms' where "dropWhile isJsonWs s = CHR 0x22 # rest"
      "parseJsonChars rest = Some (key, rest1)" "dropWhile isJsonWs rest1 = CHR '':'' # rest2"
      "parseJsonValue n rest2 = Some (v, rest3)" "dropWhile isJsonWs rest3 = CHR '','' # rest4"
      "parseJsonMembers n rest4 = Some (ms', r)" "ms = (key, v) # ms'"
proof -
  from assms obtain q rest where d: "dropWhile isJsonWs s = q # rest"
    by (cases "dropWhile isJsonWs s") auto
  from assms d have q: "q = CHR 0x22" by (auto split: if_splits)
  from assms d q obtain key rest1 where k: "parseJsonChars rest = Some (key, rest1)"
    by (cases "parseJsonChars rest") auto
  from assms d q k obtain colon rest2 where d1: "dropWhile isJsonWs rest1 = colon # rest2"
    by (cases "dropWhile isJsonWs rest1") auto
  from assms d q k d1 have c: "colon = CHR '':''" by (auto split: if_splits)
  from assms d q k d1 c obtain v rest3 where p: "parseJsonValue n rest2 = Some (v, rest3)"
    by (cases "parseJsonValue n rest2") auto
  from assms d q k d1 c p obtain c2 rest4 where d2: "dropWhile isJsonWs rest3 = c2 # rest4"
    by (cases "dropWhile isJsonWs rest3") auto
  show ?thesis
  proof (cases "c2 = CHR '',''")
    case True
    with assms d q k d1 c p d2 obtain ms' where
      "parseJsonMembers n rest4 = Some (ms', r)" "ms = (key, v) # ms'"
      by (auto split: option.splits)
    with d q k d1 c p d2 True more show ?thesis by blast
  next
    case False
    with assms d q k d1 c p d2 have "c2 = CHR ''}''" "r = rest4" "ms = [(key, v)]"
      by (auto split: if_splits)
    with d q k d1 c p d2 last show ?thesis by blast
  qed
qed

lemma dropWhile_Cons_shorter: "dropWhile P s = c # rest \<Longrightarrow> length rest < length s"
  using length_dropWhile_le[of P s] by simp

text \<open>
  A successful call consumes input, and succeeds with the same result on any fuel that
  is at least twice the number of characters it consumes.
\<close>

lemma parse_fuel_bound:
  "(\<forall>s v r. parseJsonValue n s = Some (v, r) \<longrightarrow>
      length r < length s
      \<and> (\<forall>m. 2 * (length s - length r) \<le> m \<longrightarrow> parseJsonValue m s = Some (v, r)))
   \<and> (\<forall>s vs r. parseJsonElements n s = Some (vs, r) \<longrightarrow>
      length r < length s
      \<and> (\<forall>m. 2 * (length s - length r) \<le> m \<longrightarrow> parseJsonElements m s = Some (vs, r)))
   \<and> (\<forall>s ms r. parseJsonMembers n s = Some (ms, r) \<longrightarrow>
      length r < length s
      \<and> (\<forall>m. 2 * (length s - length r) \<le> m \<longrightarrow> parseJsonMembers m s = Some (ms, r)))"
proof (induction n)
  case 0
  then show ?case by simp
next
  case (Suc n)
  then have IHv: "\<And>s v r m. parseJsonValue n s = Some (v, r) \<Longrightarrow>
        length r < length s
        \<and> (2 * (length s - length r) \<le> m \<longrightarrow> parseJsonValue m s = Some (v, r))"
    and IHe: "\<And>s vs r m. parseJsonElements n s = Some (vs, r) \<Longrightarrow>
        length r < length s
        \<and> (2 * (length s - length r) \<le> m \<longrightarrow> parseJsonElements m s = Some (vs, r))"
    and IHm: "\<And>s ms r m. parseJsonMembers n s = Some (ms, r) \<Longrightarrow>
        length r < length s
        \<and> (2 * (length s - length r) \<le> m \<longrightarrow> parseJsonMembers m s = Some (ms, r))"
    by blast+
  have v: "length r < length s
      \<and> (\<forall>m. 2 * (length s - length r) \<le> m \<longrightarrow> parseJsonValue m s = Some (v, r))"
    if p: "parseJsonValue (Suc n) s = Some (v, r)" for s v r
    using p
  proof (cases rule: parseJsonValue_Suc_cases)
    case (empty_array rest)
    have l: "length r < length rest" "length rest < length s"
      using dropWhile_Cons_shorter[OF empty_array(2)] dropWhile_Cons_shorter[OF empty_array(1)]
      by simp_all
    have "parseJsonValue m s = Some (v, r)" if "2 * (length s - length r) \<le> m" for m
    proof -
      from that l obtain m' where "m = Suc m'" by (cases m) auto
      then show ?thesis using empty_array by simp
    qed
    with l show ?thesis by simp
  next
    case (array rest c1 rest1 elements)
    have l: "length r < length rest" "length rest < length s"
      using IHe[OF array(4), THEN conjunct1] dropWhile_Cons_shorter[OF array(1)] by simp_all
    have "parseJsonValue m s = Some (v, r)" if "2 * (length s - length r) \<le> m" for m
    proof -
      from that l obtain m' where m: "m = Suc m'" by (cases m) auto
      with that l have "2 * (length rest - length r) \<le> m'" by linarith
      with IHe[OF array(4)] have "parseJsonElements m' rest = Some (elements, r)" by blast
      then show ?thesis using array m by simp
    qed
    with l show ?thesis by simp
  next
    case (empty_object rest)
    have l: "length r < length rest" "length rest < length s"
      using dropWhile_Cons_shorter[OF empty_object(2)] dropWhile_Cons_shorter[OF empty_object(1)]
      by simp_all
    have "parseJsonValue m s = Some (v, r)" if "2 * (length s - length r) \<le> m" for m
    proof -
      from that l obtain m' where "m = Suc m'" by (cases m) auto
      then show ?thesis using empty_object by simp
    qed
    with l show ?thesis by simp
  next
    case (object rest c1 rest1 members)
    have l: "length r < length rest" "length rest < length s"
      using IHm[OF object(4), THEN conjunct1] dropWhile_Cons_shorter[OF object(1)] by simp_all
    have "parseJsonValue m s = Some (v, r)" if "2 * (length s - length r) \<le> m" for m
    proof -
      from that l obtain m' where m: "m = Suc m'" by (cases m) auto
      with that l have "2 * (length rest - length r) \<le> m'" by linarith
      with IHm[OF object(4)] have "parseJsonMembers m' rest = Some (members, r)" by blast
      then show ?thesis using object m by simp
    qed
    with l show ?thesis by simp
  next
    case (scalar c rest)
    have "length r < length (c # rest)" using parseJsonScalar_shorter[OF scalar(4)] .
    moreover have "length (c # rest) \<le> length s"
      using length_dropWhile_le[of isJsonWs s] scalar(1) by simp
    ultimately have l: "length r < length s" by linarith
    have "parseJsonValue m s = Some (v, r)" if "2 * (length s - length r) \<le> m" for m
    proof -
      from that l obtain m' where "m = Suc m'" by (cases m) auto
      then show ?thesis using scalar by simp
    qed
    with l show ?thesis by simp
  qed
  have e: "length r < length s
      \<and> (\<forall>m. 2 * (length s - length r) \<le> m \<longrightarrow> parseJsonElements m s = Some (vs, r))"
    if p: "parseJsonElements (Suc n) s = Some (vs, r)" for s vs r
    using p
  proof (cases rule: parseJsonElements_Suc_cases)
    case (last v rest)
    have l: "length r < length rest" "length rest < length s"
      using IHv[OF last(1), THEN conjunct1] dropWhile_Cons_shorter[OF last(2)] by simp_all
    have "parseJsonElements m s = Some (vs, r)" if "2 * (length s - length r) \<le> m" for m
    proof -
      from that l obtain m' where m: "m = Suc m'" by (cases m) auto
      with that l have "2 * (length s - length rest) \<le> m'" by linarith
      with IHv[OF last(1)] have "parseJsonValue m' s = Some (v, rest)" by blast
      then show ?thesis using last m by simp
    qed
    with l show ?thesis by simp
  next
    case (more v rest rest1 vs')
    have l: "length r < length rest1" "length rest1 < length rest" "length rest < length s"
      using IHv[OF more(1), THEN conjunct1] IHe[OF more(3), THEN conjunct1]
        dropWhile_Cons_shorter[OF more(2)] by simp_all
    have "parseJsonElements m s = Some (vs, r)" if "2 * (length s - length r) \<le> m" for m
    proof -
      from that l obtain m' where m: "m = Suc m'" by (cases m) auto
      with that l have "2 * (length s - length rest) \<le> m'"
        "2 * (length rest1 - length r) \<le> m'" by linarith+
      with IHv[OF more(1)] IHe[OF more(3)]
      have "parseJsonValue m' s = Some (v, rest)" "parseJsonElements m' rest1 = Some (vs', r)"
        by blast+
      then show ?thesis using more m by simp
    qed
    with l show ?thesis by simp
  qed
  have ms: "length r < length s
      \<and> (\<forall>m. 2 * (length s - length r) \<le> m \<longrightarrow> parseJsonMembers m s = Some (mem, r))"
    if p: "parseJsonMembers (Suc n) s = Some (mem, r)" for s mem r
    using p
  proof (cases rule: parseJsonMembers_Suc_cases)
    case (last rest key rest1 rest2 v rest3)
    have l: "length r < length rest3" "length rest3 < length rest2" "length rest2 < length rest1"
      "length rest1 < length rest" "length rest < length s"
      using IHv[OF last(4), THEN conjunct1] dropWhile_Cons_shorter[OF last(1)]
        dropWhile_Cons_shorter[OF last(3)] dropWhile_Cons_shorter[OF last(5)]
        parseJsonChars_shorter[OF last(2)] by simp_all
    have "parseJsonMembers m s = Some (mem, r)" if "2 * (length s - length r) \<le> m" for m
    proof -
      from that l obtain m' where m: "m = Suc m'" by (cases m) auto
      with that l have "2 * (length rest2 - length rest3) \<le> m'" by linarith
      with IHv[OF last(4)] have "parseJsonValue m' rest2 = Some (v, rest3)" by blast
      then show ?thesis using last m by simp
    qed
    with l show ?thesis by simp
  next
    case (more rest key rest1 rest2 v rest3 rest4 ms')
    have l: "length r < length rest4" "length rest4 < length rest3"
      "length rest3 < length rest2" "length rest2 < length rest1"
      "length rest1 < length rest" "length rest < length s"
      using IHv[OF more(4), THEN conjunct1] IHm[OF more(6), THEN conjunct1]
        dropWhile_Cons_shorter[OF more(1)] dropWhile_Cons_shorter[OF more(3)]
        dropWhile_Cons_shorter[OF more(5)] parseJsonChars_shorter[OF more(2)] by simp_all
    have "parseJsonMembers m s = Some (mem, r)" if "2 * (length s - length r) \<le> m" for m
    proof -
      from that l obtain m' where m: "m = Suc m'" by (cases m) auto
      with that l have "2 * (length rest2 - length rest3) \<le> m'"
        "2 * (length rest4 - length r) \<le> m'" by linarith+
      with IHv[OF more(4)] IHm[OF more(6)]
      have "parseJsonValue m' rest2 = Some (v, rest3)" "parseJsonMembers m' rest4 = Some (ms', r)"
        by blast+
      then show ?thesis using more m by simp
    qed
    with l show ?thesis by simp
  qed
  from v e ms show ?case by blast
qed

text \<open>
  The fuel of \<open>JSON_parse\<close> is enough on every text: no larger fuel changes the result of
  the parse.
\<close>

lemma JSON_parse_fuel:
  assumes "2 * length text + 2 \<le> m"
  shows "parseJsonValue m text = parseJsonValue (2 * length text + 2) text"
proof (cases "parseJsonValue (2 * length text + 2) text")
  case (Some x)
  obtain v r where x: "x = (v, r)" by (cases x)
  from parse_fuel_bound[of "2 * length text + 2"] Some x
  have "length r < length text"
    and "\<forall>k. 2 * (length text - length r) \<le> k \<longrightarrow> parseJsonValue k text = Some (v, r)"
    by blast+
  moreover have "2 * (length text - length r) \<le> m" using assms by linarith
  ultimately show ?thesis using Some x by simp
next
  case None
  show ?thesis
  proof (cases "parseJsonValue m text")
    case n: None
    with None show ?thesis by simp
  next
    case (Some x)
    obtain v r where x: "x = (v, r)" by (cases x)
    from parse_fuel_bound[of m] Some x
    have "\<forall>k. 2 * (length text - length r) \<le> k \<longrightarrow> parseJsonValue k text = Some (v, r)"
      by blast
    moreover have "2 * (length text - length r) \<le> 2 * length text + 2" by linarith
    ultimately have "parseJsonValue (2 * length text + 2) text = Some (v, r)" by blast
    with None show ?thesis by simp
  qed
qed

section \<open>The claim about \<open>parseStatLine\<close>\<close>















end
